theory Spec2Isabelle
  imports Main "HOL-Library.Word" "HOL-Library.Option_ord"
begin

section \<open>Cube pruning in the Moses decoder: BitmapContainer.cpp and StaticData.cpp\<close>

text \<open>
  A shallow embedding of \<^verbatim>\<open>branches/mtm2_cube_pruning/moses/src/BitmapContainer.cpp\<close>
  (backwards edges and the per-container driver of cube pruning) and of the pruning
  settings read by \<^verbatim>\<open>StaticData::LoadData\<close> in \<^verbatim>\<open>moses/StaticData.cpp\<close>.

  Every operation that is undefined behaviour in C++ (a read or write past the storage
  of a vector, a null dereference, a failed \<^verbatim>\<open>assert\<close>, signed overflow) is a value
  of type \<open>error\<close>; a member function that may hit one returns \<open>error + 'a\<close>.
\<close>

subsection \<open>Errors, scores, machine integers\<close>

datatype error =
    OutOfBounds
  | NullPointerDereference
  | AssertionFailed
  | IllegalCoverage
  | SignedOverflow

text \<open>
  Total scores are \<^verbatim>\<open>float\<close>s that the code only compares. They are modelled as integers
  extended by minus infinity: \<open>None\<close> is \<^verbatim>\<open>-std::numeric_limits<float>::infinity()\<close>,
  the least element of the order that the library theory Option_ord puts on options.
  Rounding and NaN are outside the model.
\<close>

type_synonym score = "int option"

text \<open>\<^verbatim>\<open>size_t\<close> is taken to be 64 bits wide; its arithmetic wraps.\<close>

type_synonym size_t = "64 word"

text \<open>
  A C++ \<^verbatim>\<open>int\<close> is a HOL \<open>int\<close>. The only arithmetic on it is \<open>+ 1\<close>, undefined at
  \<^verbatim>\<open>INT_MAX\<close>; the conversion to \<^verbatim>\<open>size_t\<close> (in an index or in a product with a
  \<^verbatim>\<open>size_t\<close>) is \<open>word_of_int\<close>, which reduces modulo \<open>2 ^ 64\<close>.
\<close>

definition INT_MAX :: int where
  "INT_MAX = 2147483647"

definition int_succ :: "int \<Rightarrow> error + int" where
  "int_succ x = (if x = INT_MAX then Inl SignedOverflow else Inr (x + 1))"

definition to_size_t :: "int \<Rightarrow> size_t" where
  "to_size_t x = word_of_int x"

subsection \<open>std::vector with reserved storage\<close>

text \<open>
  A \<^verbatim>\<open>std::vector\<close> has a logical size and a storage of \<^verbatim>\<open>capacity()\<close> slots.
  \<^verbatim>\<open>reserve\<close> grows the storage only; \<^verbatim>\<open>std::copy\<close> to \<^verbatim>\<open>begin()\<close> writes into the
  storage slot by slot and leaves the size alone; \<^verbatim>\<open>operator[]\<close> does not look at the size.
  A slot that was never written is \<open>None\<close>. The model lets \<^verbatim>\<open>operator[]\<close> read every
  written slot of the storage, as the compiled code does, and reports an access past the
  storage or to an unwritten slot as \<open>OutOfBounds\<close>.
\<close>

record 'a vec =
  vec_size :: nat
  vec_storage :: "'a option list"

definition vec_empty :: "'a vec" where
  "vec_empty = \<lparr>vec_size = 0, vec_storage = []\<rparr>"

definition vec_capacity :: "'a vec \<Rightarrow> nat" where
  "vec_capacity v = length (vec_storage v)"

definition vec_reserve :: "nat \<Rightarrow> 'a vec \<Rightarrow> 'a vec" where
  "vec_reserve n v =
     (if n \<le> vec_capacity v then v
      else v\<lparr>vec_storage := vec_storage v @ replicate (n - vec_capacity v) None\<rparr>)"

definition std_copy :: "'a list \<Rightarrow> 'a vec \<Rightarrow> error + 'a vec" where
  "std_copy src v =
     (if length src \<le> vec_capacity v
      then Inr (v\<lparr>vec_storage := map Some src @ drop (length src) (vec_storage v)\<rparr>)
      else Inl OutOfBounds)"

definition vec_at :: "'a vec \<Rightarrow> size_t \<Rightarrow> error + 'a" where
  "vec_at v i =
     (if unat i < vec_capacity v
      then (case vec_storage v ! unat i of None \<Rightarrow> Inl OutOfBounds | Some a \<Rightarrow> Inr a)
      else Inl OutOfBounds)"

text \<open>\<^verbatim>\<open>std::vector<bool>\<close> built with a size: every slot is constructed.\<close>

definition bits_at :: "bool list \<Rightarrow> size_t \<Rightarrow> error + bool" where
  "bits_at bs i = (if unat i < length bs then Inr (bs ! unat i) else Inl OutOfBounds)"

definition bits_set :: "bool list \<Rightarrow> size_t \<Rightarrow> error + bool list" where
  "bits_set bs i = (if unat i < length bs then Inr (bs[unat i := True]) else Inl OutOfBounds)"

subsection \<open>Translation options and hypotheses\<close>

text \<open>
  Modelled from the spec: \<^verbatim>\<open>TranslationOption\<close>, \<^verbatim>\<open>Hypothesis\<close> and
  \<^verbatim>\<open>WordsBitmap\<close> are declared outside the files at hand. Their data follows section 3: an option has a source
  span, a target phrase, a pre-computed score and its linked options; a hypothesis has its
  predecessor, the option applied, the coverage bitmap and the total score.
\<close>

type_synonym WordsRange = "nat \<times> nat"

type_synonym WordsBitmap = "bool list"

datatype TranslationOption = TranslationOption
  (GetSourceWordsRange: WordsRange)
  (GetTargetPhrase: string)
  (GetFutureScore: int)
  (GetLinkedTransOpts: "TranslationOption list")

datatype Hypothesis = Hypothesis
  (m_prevHypo: "Hypothesis option")
  (m_transOpt: "TranslationOption option")
  (GetWordsBitmap: WordsBitmap)
  (GetTotalScore: score)

type_synonym SquareMatrix = "int list list"

text \<open>
  Modelled from the spec: \<^verbatim>\<open>WordsBitmap::Overlap\<close> is not in the files at hand. Section 3:
  the bitmap supports an "overlap test with an arbitrary span", a span being the closed
  range \<open>[start, end]\<close>.
\<close>

definition Overlap :: "WordsBitmap \<Rightarrow> WordsRange \<Rightarrow> bool" where
  "Overlap bm r = (\<exists>pos \<in> set [fst r ..< Suc (snd r)]. pos < length bm \<and> bm ! pos)"

text \<open>Modelled from the spec: "set-range" of the bitmap, not in the files at hand.\<close>

definition SetValue :: "WordsBitmap \<Rightarrow> WordsRange \<Rightarrow> WordsBitmap" where
  "SetValue bm r = map (\<lambda>pos. bm ! pos \<or> (fst r \<le> pos \<and> pos \<le> snd r)) [0 ..< length bm]"

text \<open>
  Modelled from the spec: \<^verbatim>\<open>Hypothesis::CreateNext\<close> is not in the files at hand.
  Section 4.2: the extension has "coverage = h.coverage \<union> opt.span (fails with
  IllegalCoverage if not disjoint)"; section 7 makes \<open>IllegalCoverage\<close> an abort. The
  new hypothesis is unscored until \<^verbatim>\<open>CalcScore\<close> runs.
\<close>

definition CreateNext :: "Hypothesis \<Rightarrow> TranslationOption \<Rightarrow> error + Hypothesis" where
  "CreateNext h transOpt =
     (if Overlap (GetWordsBitmap h) (GetSourceWordsRange transOpt) then Inl IllegalCoverage
      else Inr (Hypothesis (Some h) (Some transOpt)
                  (SetValue (GetWordsBitmap h) (GetSourceWordsRange transOpt)) (Some 0)))"

text \<open>
  \<^verbatim>\<open>Hypothesis::CalcScore\<close> runs the feature functions, which are external. What they
  compute is the parameter \<open>calc\<close>, a function of the future-cost table and the
  hypothesis; \<^verbatim>\<open>CalcScore\<close> stores its value as the total score.
\<close>

type_synonym scorer = "SquareMatrix \<Rightarrow> Hypothesis \<Rightarrow> score"

definition CalcScore :: "scorer \<Rightarrow> SquareMatrix \<Rightarrow> Hypothesis \<Rightarrow> Hypothesis" where
  "CalcScore calc futureScore h =
     Hypothesis (m_prevHypo h) (m_transOpt h) (GetWordsBitmap h) (calc futureScore h)"

subsection \<open>BackwardsEdge\<close>

text \<open>
  A \<^verbatim>\<open>SquarePosition\<close> is \<^verbatim>\<open>pair<Hypothesis*, pair<int, int>>\<close>; the pointer may be
  null.
\<close>

type_synonym SquarePosition = "Hypothesis option \<times> (int \<times> int)"

text \<open>
  The edge keeps a reference to its predecessor container only to read the hypotheses in
  the constructor; the record holds the other members. The queue is the list of its
  chunks from the top downwards.
\<close>

record BackwardsEdge =
  m_queue :: "SquarePosition list"
  m_seenPosition :: "bool list"
  m_initialized :: bool
  m_futurescore :: SquareMatrix
  m_kbest :: size_t
  m_kbest_translations :: "TranslationOption vec"
  m_kbest_hypotheses :: "Hypothesis vec"

subsection \<open>BitmapContainer\<close>

text \<open>
  \<^verbatim>\<open>m_hypotheses\<close> is the \<^verbatim>\<open>OrderedHypothesisSet\<close> in its iteration order.
  \<^verbatim>\<open>m_edges\<close> is a set of \<^verbatim>\<open>BackwardsEdge*\<close> filled by \<^verbatim>\<open>m_edges.insert(edge)\<close>:
  the edges live on the heap at distinct addresses, and the list holds each address with
  the state of the edge behind it, in the iteration order of the set.
  \<^verbatim>\<open>m_stack\<close> is a reference to the owning
  \<^verbatim>\<open>HypothesisStack\<close>, whose code is external; the model records the arguments of the
  calls of \<^verbatim>\<open>AddPrune\<close>, oldest first.
\<close>

type_synonym addr = nat

record BitmapContainer =
  m_bitmap :: WordsBitmap
  m_hypotheses :: "Hypothesis list"
  m_edges :: "(addr \<times> BackwardsEdge) list"
  m_stack :: "Hypothesis option list"
  m_kbest_container :: size_t

definition GetHypotheses :: "BitmapContainer \<Rightarrow> Hypothesis list" where
  "GetHypotheses c = m_hypotheses c"

text \<open>
  The constructor of \<^verbatim>\<open>BackwardsEdge\<close>. The two loops that advance \<^verbatim>\<open>optionsEnd\<close> and
  \<^verbatim>\<open>hypoEnd\<close> by \<open>k\<close> steps stay inside the ranges because \<open>k\<close> is the minimum;
  the ranges copied are the first \<open>k\<close> elements.
\<close>

definition BackwardsEdge_ctor ::
  "BitmapContainer \<Rightarrow> TranslationOption list \<Rightarrow> SquareMatrix \<Rightarrow> size_t \<Rightarrow> error + BackwardsEdge" where
  "BackwardsEdge_ctor prevBitmapContainer translations futureScore KBestCubePruning =
     (let k = min (unat KBestCubePruning) (length translations);
          kbest_translations = vec_reserve k vec_empty
      in case std_copy (take k translations) kbest_translations of
           Inl err \<Rightarrow> Inl err
         | Inr kbest_translations' \<Rightarrow>
             (let hypotheses = GetHypotheses prevBitmapContainer;
                  k = min (unat KBestCubePruning) (length hypotheses);
                  kbest_hypotheses = vec_reserve k vec_empty
              in case std_copy (take k hypotheses) kbest_hypotheses of
                   Inl err \<Rightarrow> Inl err
                 | Inr kbest_hypotheses' \<Rightarrow>
                     Inr \<lparr>m_queue = [],
                          m_seenPosition =
                            replicate (unat (KBestCubePruning * KBestCubePruning)) False,
                          m_initialized = False,
                          m_futurescore = futureScore,
                          m_kbest = KBestCubePruning,
                          m_kbest_translations = kbest_translations',
                          m_kbest_hypotheses = kbest_hypotheses'\<rparr>))"


subsection \<open>Operations of BackwardsEdge\<close>

definition InvalidSquarePosition :: SquarePosition where
  "InvalidSquarePosition = (None, (-1, -1))"

text \<open>
  \<^verbatim>\<open>CreateHypothesis\<close>: the loop over the linked options, with the running hypothesis as
  its state. \<open>Inr None\<close> is the \<^verbatim>\<open>return NULL\<close>.
\<close>

fun CreateHypothesis_linked ::
  "scorer \<Rightarrow> SquareMatrix \<Rightarrow> Hypothesis \<Rightarrow> TranslationOption list \<Rightarrow> error + Hypothesis option" where
  "CreateHypothesis_linked calc futurescore newHypo [] = Inr (Some newHypo)"
| "CreateHypothesis_linked calc futurescore newHypo (iterLinked # rest) =
     (let hypoBitmap = GetWordsBitmap newHypo
      in if Overlap hypoBitmap (GetSourceWordsRange iterLinked) then Inr None
         else (case CreateNext (CalcScore calc futurescore newHypo) iterLinked of
                 Inl err \<Rightarrow> Inl err
               | Inr newHypo' \<Rightarrow> CreateHypothesis_linked calc futurescore newHypo' rest))"

definition CreateHypothesis ::
  "scorer \<Rightarrow> SquareMatrix \<Rightarrow> Hypothesis \<Rightarrow> TranslationOption \<Rightarrow> error + Hypothesis option" where
  "CreateHypothesis calc futurescore hypothesis transOpt =
     (case CreateNext hypothesis transOpt of
        Inl err \<Rightarrow> Inl err
      | Inr newHypo \<Rightarrow>
          (case CreateHypothesis_linked calc futurescore newHypo (GetLinkedTransOpts transOpt) of
             Inl err \<Rightarrow> Inl err
           | Inr None \<Rightarrow> Inr None
           | Inr (Some newHypo') \<Rightarrow> Inr (Some (CalcScore calc futurescore newHypo'))))"

text \<open>
  Modelled from the spec: the comparator of the priority queue (\<^verbatim>\<open>SquarePositionOrderer\<close>
  in \<^verbatim>\<open>BitmapContainer.h\<close>) is not in the files at hand. Section 4.3: "primary key =
  total score (descending); tie-break = insertion sequence number (ascending)". The
  comparator reads the score through the chunk's hypothesis pointer, so comparing a chunk
  whose pointer is null is a null dereference; a push into an empty queue compares
  nothing.
\<close>

definition chunk_score :: "SquarePosition \<Rightarrow> score" where
  "chunk_score c = (case fst c of None \<Rightarrow> None | Some h \<Rightarrow> GetTotalScore h)"

definition queue_push :: "SquarePosition \<Rightarrow> SquarePosition list \<Rightarrow> error + SquarePosition list" where
  "queue_push c q =
     (if q = [] then Inr [c]
      else if fst c = None \<or> list_ex (\<lambda>d. fst d = None) q then Inl NullPointerDereference
      else Inr (takeWhile (\<lambda>d. chunk_score c \<le> chunk_score d) q
                @ c # dropWhile (\<lambda>d. chunk_score c \<le> chunk_score d) q))"

definition seen_index :: "BackwardsEdge \<Rightarrow> int \<Rightarrow> int \<Rightarrow> size_t" where
  "seen_index e x y = m_kbest e * to_size_t x + to_size_t y"

definition SeenPosition :: "BackwardsEdge \<Rightarrow> int \<Rightarrow> int \<Rightarrow> error + bool" where
  "SeenPosition e x y = bits_at (m_seenPosition e) (seen_index e x y)"

definition Enqueue :: "int \<Rightarrow> int \<Rightarrow> Hypothesis option \<Rightarrow> BackwardsEdge \<Rightarrow> error + BackwardsEdge" where
  "Enqueue x y hypothesis e =
     (case queue_push (hypothesis, (x, y)) (m_queue e) of
        Inl err \<Rightarrow> Inl err
      | Inr q \<Rightarrow>
          (case bits_set (m_seenPosition e) (seen_index e x y) of
             Inl err \<Rightarrow> Inl err
           | Inr seen \<Rightarrow> Inr (e\<lparr>m_queue := q, m_seenPosition := seen\<rparr>)))"

text \<open>
  The expression \<^verbatim>\<open>CreateHypothesis(*m_kbest_hypotheses[x], *m_kbest_translations[y])\<close>,
  which \<^verbatim>\<open>Initialize\<close> evaluates at \<open>(0, 0)\<close> and \<^verbatim>\<open>PushSuccessors\<close> at the two
  neighbours. The \<^verbatim>\<open>int\<close> index is converted to \<^verbatim>\<open>size_t\<close>; there is no test against
  the number of elements.
\<close>

definition grid_cell :: "scorer \<Rightarrow> BackwardsEdge \<Rightarrow> int \<Rightarrow> int \<Rightarrow> error + Hypothesis option" where
  "grid_cell calc e x y =
     (case vec_at (m_kbest_hypotheses e) (to_size_t x) of
        Inl err \<Rightarrow> Inl err
      | Inr hypothesis \<Rightarrow>
          (case vec_at (m_kbest_translations e) (to_size_t y) of
             Inl err \<Rightarrow> Inl err
           | Inr transOpt \<Rightarrow> CreateHypothesis calc (m_futurescore e) hypothesis transOpt))"

definition Initialize :: "scorer \<Rightarrow> BackwardsEdge \<Rightarrow> error + BackwardsEdge" where
  "Initialize calc e =
     (case grid_cell calc e 0 0 of
        Inl err \<Rightarrow> Inl err
      | Inr expanded \<Rightarrow>
          (case Enqueue 0 0 expanded e of
             Inl err \<Rightarrow> Inl err
           | Inr e1 \<Rightarrow>
               (case bits_set (m_seenPosition e1) 0 of
                  Inl err \<Rightarrow> Inl err
                | Inr seen \<Rightarrow> Inr (e1\<lparr>m_seenPosition := seen, m_initialized := True\<rparr>))))"

text \<open>
  One block of \<^verbatim>\<open>PushSuccessors\<close>, for the neighbour \<open>(x', y')\<close>:
  \<^verbatim>\<open>if(!SeenPosition(x', y')) { newHypo = CreateHypothesis(...); if(newHypo != NULL)
  Enqueue(x', y', newHypo); }\<close>
\<close>

definition PushSuccessors_block :: "scorer \<Rightarrow> int \<Rightarrow> int \<Rightarrow> BackwardsEdge \<Rightarrow> error + BackwardsEdge" where
  "PushSuccessors_block calc x' y' e =
     (case SeenPosition e x' y' of
        Inl err \<Rightarrow> Inl err
      | Inr True \<Rightarrow> Inr e
      | Inr False \<Rightarrow>
          (case grid_cell calc e x' y' of
             Inl err \<Rightarrow> Inl err
           | Inr None \<Rightarrow> Inr e
           | Inr (Some newHypo) \<Rightarrow> Enqueue x' y' (Some newHypo) e))"

definition PushSuccessors :: "scorer \<Rightarrow> int \<Rightarrow> int \<Rightarrow> BackwardsEdge \<Rightarrow> error + BackwardsEdge" where
  "PushSuccessors calc x y e =
     (case int_succ y of
        Inl err \<Rightarrow> Inl err
      | Inr y1 \<Rightarrow>
     (case PushSuccessors_block calc x y1 e of
        Inl err \<Rightarrow> Inl err
      | Inr e1 \<Rightarrow>
     (case int_succ x of
        Inl err \<Rightarrow> Inl err
      | Inr x1 \<Rightarrow> PushSuccessors_block calc x1 y e1)))"

definition Empty :: "BackwardsEdge \<Rightarrow> bool" where
  "Empty e = (m_queue e = [])"

definition Size :: "BackwardsEdge \<Rightarrow> nat" where
  "Size e = length (m_queue e)"

definition Dequeue :: "scorer \<Rightarrow> bool \<Rightarrow> BackwardsEdge \<Rightarrow> error + (SquarePosition \<times> BackwardsEdge)" where
  "Dequeue calc keepValue e =
     (case (if \<not> m_initialized e then Initialize calc e else Inr e) of
        Inl err \<Rightarrow> Inl err
      | Inr e1 \<Rightarrow>
          (case m_queue e1 of
             [] \<Rightarrow> Inr (InvalidSquarePosition, e1)
           | ret # rest \<Rightarrow> Inr (ret, if \<not> keepValue then e1\<lparr>m_queue := rest\<rparr> else e1)))"

subsection \<open>Operations of BitmapContainer\<close>

text \<open>
  Modelled from the spec: \<^verbatim>\<open>BackwardsEdgeSet\<close> is declared in
  \<^verbatim>\<open>BitmapContainer.h\<close>, not in the files at hand. \<^verbatim>\<open>BitmapContainer.cpp\<close> uses
  it with \<^verbatim>\<open>insert(edge)\<close>, \<^verbatim>\<open>empty()\<close> and iteration over \<^verbatim>\<open>BackwardsEdge*\<close>
  elements. Section 3 calls it "a set of Backwards Edges"; sections 4.4 and 5 have ties
  between edges broken "by edge insertion order", "not by address or hash order". So the
  set keeps one entry per edge, an edge being known by its address, and iterates in the
  order of the insertions.
\<close>

fun set_insert :: "addr \<times> BackwardsEdge \<Rightarrow> (addr \<times> BackwardsEdge) list \<Rightarrow> (addr \<times> BackwardsEdge) list" where
  "set_insert p [] = [p]"
| "set_insert p (q # qs) = (if fst p = fst q then q # qs else q # set_insert p qs)"

definition AddBackwardsEdge :: "addr \<times> BackwardsEdge \<Rightarrow> BitmapContainer \<Rightarrow> BitmapContainer" where
  "AddBackwardsEdge edge c = c\<lparr>m_edges := set_insert edge (m_edges c)\<rparr>"


text \<open>
  The first loop of \<^verbatim>\<open>FindKBestHypotheses\<close>: it peeks at every edge in the iteration
  order of the set, which initializes an edge on first use, and keeps the address and the
  score of the best top so far. Reading the score goes through \<^verbatim>\<open>current.first\<close>
  without a test.
\<close>

fun peek_edges ::
  "scorer \<Rightarrow> (addr \<times> BackwardsEdge) list \<Rightarrow> addr option \<Rightarrow> score
     \<Rightarrow> error + ((addr \<times> BackwardsEdge) list \<times> addr option \<times> score)" where
  "peek_edges calc [] bestEdge bestScore = Inr ([], bestEdge, bestScore)"
| "peek_edges calc ((a, e) # edges) bestEdge bestScore =
     (case Dequeue calc True e of
        Inl err \<Rightarrow> Inl err
      | Inr (current, e') \<Rightarrow>
          (case fst current of
             None \<Rightarrow> Inl NullPointerDereference
           | Some h \<Rightarrow>
               (case (if GetTotalScore h > bestScore
                      then peek_edges calc edges (Some a) (GetTotalScore h)
                      else peek_edges calc edges bestEdge bestScore) of
                  Inl err \<Rightarrow> Inl err
                | Inr (edges', best) \<Rightarrow> Inr ((a, e') # edges', best))))"

fun edge_update :: "addr \<Rightarrow> BackwardsEdge \<Rightarrow> (addr \<times> BackwardsEdge) list \<Rightarrow> (addr \<times> BackwardsEdge) list" where
  "edge_update a e' [] = []"
| "edge_update a e' ((b, e) # edges) =
     (if a = b then (b, e') # edges else (b, e) # edge_update a e' edges)"

text \<open>
  \<^verbatim>\<open>FindKBestHypotheses\<close>. \<^verbatim>\<open>bestEdge\<close> is one of the addresses in the set, so the
  lookup finds it. \<^verbatim>\<open>m_stack.AddPrune(bestHypo)\<close> appends the pointer passed to the
  record of the calls. A fault ends the call; the stack belongs to the caller, so the
  calls of \<^verbatim>\<open>AddPrune\<close> made before the fault stay visible, and \<open>Inl\<close> carries their
  record with the error.
\<close>

definition FindKBestHypotheses ::
  "scorer \<Rightarrow> BitmapContainer \<Rightarrow> (error \<times> Hypothesis option list) + BitmapContainer" where
  "FindKBestHypotheses calc c =
     (if m_edges c = [] then Inr c
      else
     (case peek_edges calc (m_edges c) None None of
        Inl err \<Rightarrow> Inl (err, m_stack c)
      | Inr (edges1, bestEdge, bestScore) \<Rightarrow>
     (case bestEdge of
        None \<Rightarrow> Inl (AssertionFailed, m_stack c)
      | Some a \<Rightarrow>
     (case map_of edges1 a of
        None \<Rightarrow> Inl (NullPointerDereference, m_stack c)
      | Some e \<Rightarrow>
     (case Dequeue calc False e of
        Inl err \<Rightarrow> Inl (err, m_stack c)
      | Inr (pos, e1) \<Rightarrow>
          (let bestHypo = fst pos;
               stack' = m_stack c @ [bestHypo];
               x = fst (snd pos);
               y = snd (snd pos)
           in case PushSuccessors calc x y e1 of
                Inl err \<Rightarrow> Inl (err, stack')
              | Inr e2 \<Rightarrow>
                  Inr (c\<lparr>m_edges := edge_update a e2 edges1, m_stack := stack'\<rparr>)))))))"


subsection \<open>An edge driven by pops\<close>

text \<open>
  The only client of an edge in the file at hand is \<^verbatim>\<open>FindKBestHypotheses\<close>: it pops the
  top with \<^verbatim>\<open>Dequeue(false)\<close> and calls \<^verbatim>\<open>PushSuccessors\<close> at the popped position.
  \<open>pop_sequence calc n e\<close> is the list of the hypotheses popped from \<open>e\<close> in up to
  \<open>n\<close> such rounds; it ends early at the first pop without a hypothesis (the invalid
  position of a drained edge) and at the first error.
\<close>

fun pop_sequence :: "scorer \<Rightarrow> nat \<Rightarrow> BackwardsEdge \<Rightarrow> Hypothesis list" where
  "pop_sequence calc 0 e = []"
| "pop_sequence calc (Suc n) e =
     (case Dequeue calc False e of
        Inl err \<Rightarrow> []
      | Inr (pos, e1) \<Rightarrow>
          (case fst pos of
             None \<Rightarrow> []
           | Some h \<Rightarrow>
               h # (case PushSuccessors calc (fst (snd pos)) (snd (snd pos)) e1 of
                      Inl err \<Rightarrow> []
                    | Inr e2 \<Rightarrow> pop_sequence calc n e2)))"

text \<open>
  The monotonicity assumption on the grid of an edge: wherever a cell and one of its two
  successors both yield a hypothesis, the successor scores no higher.
\<close>

definition cell_le :: "scorer \<Rightarrow> BackwardsEdge \<Rightarrow> int \<Rightarrow> int \<Rightarrow> Hypothesis \<Rightarrow> bool" where
  "cell_le calc e x y h =
     (case grid_cell calc e x y of
        Inr (Some h') \<Rightarrow> GetTotalScore h' \<le> GetTotalScore h
      | _ \<Rightarrow> True)"

definition grid_monotone :: "scorer \<Rightarrow> BackwardsEdge \<Rightarrow> bool" where
  "grid_monotone calc e =
     (\<forall>i \<in> set [0 ..< vec_capacity (m_kbest_hypotheses e)].
      \<forall>j \<in> set [0 ..< vec_capacity (m_kbest_translations e)].
        (case grid_cell calc e (int i) (int j) of
           Inr (Some h) \<Rightarrow>
             cell_le calc e (int i) (int j + 1) h \<and> cell_le calc e (int i + 1) (int j) h
         | _ \<Rightarrow> True))"

text \<open>
  The invariant of an initialized edge used in the proofs: the queue is ordered by score,
  and every chunk holds the hypothesis of its own cell, at coordinates that are
  non-negative \<^verbatim>\<open>int\<close>s.
\<close>

definition genuine :: "scorer \<Rightarrow> BackwardsEdge \<Rightarrow> SquarePosition \<Rightarrow> bool" where
  "genuine calc e c =
     (case c of (ho, (x, y)) \<Rightarrow>
        0 \<le> x \<and> x \<le> INT_MAX \<and> 0 \<le> y \<and> y \<le> INT_MAX \<and> ho \<noteq> None \<and> grid_cell calc e x y = Inr ho)"

definition queue_inv :: "scorer \<Rightarrow> BackwardsEdge \<Rightarrow> bool" where
  "queue_inv calc e =
     (m_initialized e \<and> sorted_wrt (\<ge>) (map chunk_score (m_queue e))
      \<and> (\<forall>c \<in> set (m_queue e). genuine calc e c))"

definition same_grid :: "BackwardsEdge \<Rightarrow> BackwardsEdge \<Rightarrow> bool" where
  "same_grid e e' =
     (m_kbest_hypotheses e' = m_kbest_hypotheses e \<and> m_kbest_translations e' = m_kbest_translations e
      \<and> m_futurescore e' = m_futurescore e \<and> m_kbest e' = m_kbest e)"

subsection \<open>Linked options, in the words of the specification\<close>

text \<open>
  Section 4.2: "apply opt then each linked option in sequence on the running hypothesis.
  If any linked option's span overlaps the already-updated coverage, the entire extension
  is rejected". \<open>coverage_after bm ls\<close> is the coverage once the options \<open>ls\<close> are
  applied to \<open>bm\<close>; \<open>linked_conflict bm ls\<close> says that some linked option overlaps the
  coverage accumulated when its turn comes; \<open>covers bm r\<close> says that the bitmap has
  every position of the span \<open>r\<close> that lies in the sentence.
\<close>

definition coverage_after :: "WordsBitmap \<Rightarrow> TranslationOption list \<Rightarrow> WordsBitmap" where
  "coverage_after bm ls = foldl SetValue bm (map GetSourceWordsRange ls)"

definition linked_conflict :: "WordsBitmap \<Rightarrow> TranslationOption list \<Rightarrow> bool" where
  "linked_conflict bm ls =
     (\<exists>i \<in> set [0 ..< length ls].
        Overlap (coverage_after bm (take i ls)) (GetSourceWordsRange (ls ! i)))"

definition covers :: "WordsBitmap \<Rightarrow> WordsRange \<Rightarrow> bool" where
  "covers bm r = (\<forall>pos \<in> set [fst r ..< Suc (snd r)]. pos < length bm \<longrightarrow> bm ! pos)"

subsection \<open>StaticData::LoadData, up to the pruning settings\<close>

text \<open>
  \<^verbatim>\<open>Parameter\<close> maps a parameter name to the vector of its values; \<^verbatim>\<open>GetParam\<close>
  returns a null pointer for a name that was not given. What lies outside
  \<^verbatim>\<open>StaticData.cpp\<close> is a parameter of the model, a field of \<open>LoadEnv\<close>:
  \<^item> \<open>SetParameter_int\<close> and \<open>SetParameter_InputTypeEnum\<close> are
    \<^verbatim>\<open>Parameter::SetParameter(var, name, default)\<close> at the two types used here, as the
    value stored in \<open>var\<close>;
  \<^item> \<open>Scan_size_t\<close> is \<^verbatim>\<open>Scan<size_t>\<close>;
  \<^item> \<open>IsChart\<close> is the value of \<^verbatim>\<open>IsChart()\<close> once \<^verbatim>\<open>search-algorithm\<close> is read;
  \<^item> \<open>unknown_lhs_malformed path\<close> says that the file at \<open>path\<close> has a line that is
    not made of two tokens;
  \<^item> \<open>HAVE_PROTOBUF\<close> says that the macro of this name is defined.
\<close>

datatype InputTypeEnum = SentenceInput | ConfusionNetworkInput | WordLatticeInput | TreeInputType

type_synonym PARAM_VEC = "string list"

type_synonym Parameter = "string \<Rightarrow> PARAM_VEC option"

record LoadEnv =
  SetParameter_int :: "Parameter \<Rightarrow> string \<Rightarrow> int \<Rightarrow> int"
  SetParameter_InputTypeEnum :: "Parameter \<Rightarrow> string \<Rightarrow> InputTypeEnum \<Rightarrow> InputTypeEnum"
  Scan_size_t :: "string \<Rightarrow> nat"
  IsChart :: "Parameter \<Rightarrow> bool"
  unknown_lhs_malformed :: "string \<Rightarrow> bool"
  HAVE_PROTOBUF :: bool

definition GetParam :: "Parameter \<Rightarrow> string \<Rightarrow> PARAM_VEC option" where
  "GetParam parameter name = parameter name"

text \<open>\<^verbatim>\<open>LoadData\<close> returns a truth value or leaves by an exception.\<close>

datatype outcome = Returned bool | Thrown

text \<open>The members of \<^verbatim>\<open>StaticData\<close> that the pruning settings read or write.\<close>

record StaticData =
  m_inputType :: InputTypeEnum
  m_maxDistortion :: int
  m_minHypoStackDiversity :: nat

text \<open>
  \<^verbatim>\<open>LoadNonTerminals\<close>, called by \<^verbatim>\<open>LoadChartDecodingParameters\<close>: when
  \<^verbatim>\<open>unknown-lhs\<close> is given with a value it reads the file of that name and throws at
  a line that is not made of two tokens. Nothing else in the two functions throws.
\<close>

definition LoadNonTerminals_throws :: "LoadEnv \<Rightarrow> Parameter \<Rightarrow> bool" where
  "LoadNonTerminals_throws env parameter =
     (case GetParam parameter ''unknown-lhs'' of
        Some (filePath # others) \<Rightarrow> unknown_lhs_malformed env filePath
      | _ \<Rightarrow> False)"

definition LoadChartDecodingParameters_throws :: "LoadEnv \<Rightarrow> Parameter \<Rightarrow> bool" where
  "LoadChartDecodingParameters_throws env parameter = LoadNonTerminals_throws env parameter"

text \<open>
  The tests of \<^verbatim>\<open>LoadData\<close> that return \<^verbatim>\<open>false\<close> before the reordering constraints
  are read: the formats of \<^verbatim>\<open>n-best-list\<close>, \<^verbatim>\<open>lattice-samples\<close>,
  \<^verbatim>\<open>output-search-graph\<close>, \<^verbatim>\<open>output-search-graph-extended\<close> and, when compiled
  with \<^verbatim>\<open>HAVE_PROTOBUF\<close>, \<^verbatim>\<open>output-search-graph-pb\<close>.
\<close>

definition output_formats_ok :: "LoadEnv \<Rightarrow> Parameter \<Rightarrow> bool" where
  "output_formats_ok env parameter =
     ((case GetParam parameter ''n-best-list'' of
         Some params \<Rightarrow> length params \<ge> 2
       | None \<Rightarrow> True)
      \<and> (case GetParam parameter ''lattice-samples'' of
         Some params \<Rightarrow> length params = 2
       | None \<Rightarrow> True)
      \<and> (case GetParam parameter ''output-search-graph'' of
         Some (v # vs) \<Rightarrow> length (v # vs) = 1
       | _ \<Rightarrow>
         (case GetParam parameter ''output-search-graph-extended'' of
            Some (v # vs) \<Rightarrow> length (v # vs) = 1
          | _ \<Rightarrow> True))
      \<and> (if HAVE_PROTOBUF env
          then (case GetParam parameter ''output-search-graph-pb'' of
                  Some (v # vs) \<Rightarrow> length (v # vs) = 1
                | _ \<Rightarrow> True)
          else True))"

text \<open>
  \<^verbatim>\<open>LoadData\<close> from its start to the end of the block that reads
  \<^verbatim>\<open>stack-diversity\<close>. The statements left out assign members that this part does not
  read, and neither return nor throw. The rest of the function neither reads
  \<^verbatim>\<open>stack-diversity\<close> nor assigns the three members of the record; how it ends is the
  parameter \<open>rest\<close>. The result is the way the call ends and the members at that
  moment.
\<close>

definition LoadData ::
  "LoadEnv \<Rightarrow> (StaticData \<Rightarrow> outcome) \<Rightarrow> Parameter \<Rightarrow> StaticData \<Rightarrow> outcome \<times> StaticData" where
  "LoadData env rest parameter s0 =
     (if IsChart env parameter \<and> LoadChartDecodingParameters_throws env parameter
      then (Thrown, s0)
      else
        (let s1 = s0\<lparr>m_inputType :=
                      SetParameter_InputTypeEnum env parameter ''inputtype'' SentenceInput\<rparr>
         in if \<not> output_formats_ok env parameter then (Returned False, s1)
            else
              (let s2 = s1\<lparr>m_maxDistortion :=
                            SetParameter_int env parameter ''distortion-limit'' (- 1)\<rparr>;
                   s3 = s2\<lparr>m_minHypoStackDiversity := 0\<rparr>
               in case GetParam parameter ''stack-diversity'' of
                    Some (v # vs) \<Rightarrow>
                      if m_maxDistortion s3 > 15 then (Returned False, s3)
                      else if m_inputType s3 = WordLatticeInput then (Returned False, s3)
                      else (let s4 = s3\<lparr>m_minHypoStackDiversity := Scan_size_t env v\<rparr>
                            in (rest s4, s4))
                  | _ \<Rightarrow> (rest s3, s3))))"

text \<open>
  \<open>reaches_pruning\<close>: the call gets as far as the pruning settings, that is, it has
  neither thrown while loading the chart parameters nor returned at a format test.
\<close>

definition reaches_pruning :: "LoadEnv \<Rightarrow> Parameter \<Rightarrow> bool" where
  "reaches_pruning env parameter =
     (\<not> (IsChart env parameter \<and> LoadChartDecodingParameters_throws env parameter)
      \<and> output_formats_ok env parameter)"

subsection \<open>Sample data\<close>

text \<open>
  A scorer that adds the option's score to the predecessor's total, two predecessor
  hypotheses of a three-word sentence with nothing covered, and options for the first
  word; \<open>optL\<close> has a linked option for the third word, \<open>optBad\<close> a linked option that
  overlaps its own span.
\<close>

definition additive :: scorer where
  "additive futureScore h =
     (case (m_prevHypo h, m_transOpt h) of
        (Some p, Some t) \<Rightarrow> map_option (\<lambda>s. s + GetFutureScore t) (GetTotalScore p)
      | _ \<Rightarrow> GetTotalScore h)"

definition hypA :: Hypothesis where
  "hypA = Hypothesis None None [False, False, False] (Some 0)"

definition hypB :: Hypothesis where
  "hypB = Hypothesis None None [False, False, False] (Some (- 1))"

definition optX :: TranslationOption where
  "optX = TranslationOption (0, 0) ''X'' (- 1) []"

definition optY :: TranslationOption where
  "optY = TranslationOption (0, 0) ''Y'' (- 2) []"

definition optL :: TranslationOption where
  "optL = TranslationOption (0, 0) ''L'' (- 3) [TranslationOption (2, 2) ''M'' (- 1) []]"

definition optBad :: TranslationOption where
  "optBad = TranslationOption (0, 1) ''P'' (- 3) [TranslationOption (1, 2) ''Q'' (- 1) []]"

definition sample_prev :: "Hypothesis list \<Rightarrow> BitmapContainer" where
  "sample_prev hs =
     \<lparr>m_bitmap = [False, False, False], m_hypotheses = hs, m_edges = [], m_stack = [],
      m_kbest_container = 2\<rparr>"

definition sample_container :: BitmapContainer where
  "sample_container =
     \<lparr>m_bitmap = [True, False, False], m_hypotheses = [], m_edges = [], m_stack = [],
      m_kbest_container = 2\<rparr>"

text \<open>
  \<open>new_edge hs ts K\<close> is the edge that the constructor builds from the hypotheses
  \<open>hs\<close>, the options \<open>ts\<close> and the parameter \<open>K\<close> (the constructor never fails, see
  \<open>BackwardsEdge_ctor_eq\<close>); \<open>popped e\<close> is the edge after one
  \<^verbatim>\<open>Dequeue(false)\<close>.
\<close>

definition new_edge :: "Hypothesis list \<Rightarrow> TranslationOption list \<Rightarrow> size_t \<Rightarrow> BackwardsEdge" where
  "new_edge hs ts K = projr (BackwardsEdge_ctor (sample_prev hs) ts [] K)"

definition popped :: "BackwardsEdge \<Rightarrow> BackwardsEdge" where
  "popped e = snd (projr (Dequeue additive False e))"

definition hypAX :: Hypothesis where
  "hypAX = Hypothesis (Some hypA) (Some optX) [True, False, False] (Some (- 1))"

definition hypAY :: Hypothesis where
  "hypAY = Hypothesis (Some hypA) (Some optY) [True, False, False] (Some (- 2))"

definition hypBX :: Hypothesis where
  "hypBX = Hypothesis (Some hypB) (Some optX) [True, False, False] (Some (- 2))"




text \<open>
  An environment for the sample configurations, which only hold the numerals 3 and 20
  and the input type 2: a parameter given with a value is read from its first value, any
  other takes the default; the search algorithm 3 is chart decoding; the file
  \<open>bad.lhs\<close> is malformed. Then a sample state of \<^verbatim>\<open>StaticData\<close> before
  \<^verbatim>\<open>LoadData\<close>.
\<close>

definition sample_env :: LoadEnv where
  "sample_env =
     \<lparr>SetParameter_int =
        (\<lambda>parameter name defaultValue.
           case parameter name of
             Some (v # vs) \<Rightarrow> (if v = ''20'' then 20 else if v = ''3'' then 3 else 0)
           | _ \<Rightarrow> defaultValue),
      SetParameter_InputTypeEnum =
        (\<lambda>parameter name defaultValue.
           case parameter name of
             Some (v # vs) \<Rightarrow> (if v = ''2'' then WordLatticeInput else SentenceInput)
           | _ \<Rightarrow> defaultValue),
      Scan_size_t = (\<lambda>s. if s = ''20'' then 20 else if s = ''3'' then 3 else 0),
      IsChart =
        (\<lambda>parameter.
           case parameter ''search-algorithm'' of
             Some (v # vs) \<Rightarrow> v = ''3''
           | _ \<Rightarrow> False),
      unknown_lhs_malformed = (\<lambda>path. path = ''bad.lhs''),
      HAVE_PROTOBUF = False\<rparr>"

definition sample_static :: StaticData where
  "sample_static = \<lparr>m_inputType = SentenceInput, m_maxDistortion = 0, m_minHypoStackDiversity = 7\<rparr>"

definition config_far :: Parameter where
  "config_far = map_of [(''stack-diversity'', [''3'']), (''distortion-limit'', [''20''])]"

definition config_lattice :: Parameter where
  "config_lattice = map_of [(''stack-diversity'', [''3'']), (''inputtype'', [''2''])]"

definition config_plain :: Parameter where
  "config_plain = map_of [(''distortion-limit'', [''20''])]"

definition config_novalue :: Parameter where
  "config_novalue = map_of [(''stack-diversity'', []), (''distortion-limit'', [''20''])]"

definition config_nbest :: Parameter where
  "config_nbest = map_of [(''n-best-list'', [''file''])]"

definition config_chart :: Parameter where
  "config_chart =
     map_of [(''stack-diversity'', [''3'']), (''distortion-limit'', [''20'']),
             (''search-algorithm'', [''3'']), (''unknown-lhs'', [''bad.lhs''])]"

text \<open>
  \<open>edge_bad\<close>: the edge over the hypotheses \<open>hypA\<close>, \<open>hypB\<close> and the options
  \<open>optX\<close>, \<open>optBad\<close> with \<open>K = 2\<close>, after the first pop. Its cell \<open>(0, 1)\<close>
  combines \<open>hypA\<close> with \<open>optBad\<close>, whose linked option overlaps.
\<close>

definition edge_bad :: BackwardsEdge where
  "edge_bad = popped (new_edge [hypA, hypB] [optX, optBad] 2)"

text \<open>
  Sample containers. \<open>edge_fresh\<close> is a new edge over two hypotheses and two options,
  \<open>edge_drained\<close> the same edge after one \<^verbatim>\<open>Dequeue(false)\<close>: initialized, with an
  empty queue. \<open>edge_low\<close> has a lower best cell than \<open>edge_fresh\<close>, \<open>edge_tie\<close> an
  equal one, \<open>edge_short\<close> a single option. \<open>edges_tie\<close> inserts \<open>edge_fresh\<close>
  first, at the higher address.
\<close>

definition hypC :: Hypothesis where
  "hypC = Hypothesis None None [False, False, False] (Some (- 2))"

definition optW :: TranslationOption where
  "optW = TranslationOption (0, 0) ''W'' (- 4) []"

definition hypBY :: Hypothesis where
  "hypBY = Hypothesis (Some hypB) (Some optY) [True, False, False] (Some (- 3))"

definition edge_fresh :: BackwardsEdge where
  "edge_fresh = new_edge [hypA, hypB] [optX, optY] 2"

definition edge_drained :: BackwardsEdge where
  "edge_drained = popped edge_fresh"

definition edge_low :: BackwardsEdge where
  "edge_low = new_edge [hypB, hypC] [optY, optW] 2"


definition edge_short :: BackwardsEdge where
  "edge_short = new_edge [hypA, hypB] [optX] 2"

definition container_drained :: BitmapContainer where
  "container_drained =
     AddBackwardsEdge (2, edge_drained) (AddBackwardsEdge (1, edge_fresh) sample_container)"

definition container_two :: BitmapContainer where
  "container_two =
     AddBackwardsEdge (2, edge_fresh) (AddBackwardsEdge (1, edge_low) sample_container)"

definition container_short :: BitmapContainer where
  "container_short =
     AddBackwardsEdge (2, edge_short) (AddBackwardsEdge (1, edge_low) sample_container)"


section \<open>The constructor of BackwardsEdge\<close>

lemma vec_reserve_empty:
  "vec_reserve n vec_empty = \<lparr>vec_size = 0, vec_storage = replicate n None\<rparr>"
  by (simp add: vec_reserve_def vec_empty_def vec_capacity_def)

lemma std_copy_reserved:
  "length src = n \<Longrightarrow>
   std_copy src (vec_reserve n vec_empty) = Inr \<lparr>vec_size = 0, vec_storage = map Some src\<rparr>"
  by (simp add: vec_reserve_empty std_copy_def vec_capacity_def)

text \<open>
  The constructor never fails. Both snapshots have the first \<open>min(K, available)\<close>
  elements in their storage and the logical size 0: \<^verbatim>\<open>reserve\<close> and \<^verbatim>\<open>std::copy\<close>
  to \<^verbatim>\<open>begin()\<close> do not insert.
\<close>

lemma BackwardsEdge_ctor_eq:
  "BackwardsEdge_ctor prev translations futureScore K =
     Inr \<lparr>m_queue = [],
          m_seenPosition = replicate (unat (K * K)) False,
          m_initialized = False,
          m_futurescore = futureScore,
          m_kbest = K,
          m_kbest_translations =
            \<lparr>vec_size = 0,
             vec_storage = map Some (take (min (unat K) (length translations)) translations)\<rparr>,
          m_kbest_hypotheses =
            \<lparr>vec_size = 0,
             vec_storage =
               map Some (take (min (unat K) (length (m_hypotheses prev))) (m_hypotheses prev))\<rparr>\<rparr>"
  by (simp add: BackwardsEdge_ctor_def Let_def GetHypotheses_def std_copy_reserved)

text \<open>
  C1. The claim: after construction with parameter \<open>K\<close> from \<open>n\<close> options and \<open>m\<close>
  hypotheses, the logical size of each snapshot vector is \<open>min(K, available)\<close>. The
  code at \<open>K = 2\<close>, \<open>n = 3\<close>, \<open>m = 1\<close>: the storages hold 2 options and 1 hypothesis,
  and both logical sizes are 0, not 2 and 1.
\<close>

theorem BackwardsEdge_ctor_logical_size_zero:
  "map_sum id
     (\<lambda>e. (vec_size (m_kbest_translations e), vec_capacity (m_kbest_translations e),
           vec_size (m_kbest_hypotheses e), vec_capacity (m_kbest_hypotheses e)))
     (BackwardsEdge_ctor (sample_prev [hypA]) [optX, optY, optX] [] 2)
   = Inr (0, 2, 0, 1)"
  by code_simp

section \<open>PushSuccessors and the bounds of the snapshots\<close>

text \<open>
  C2. The claim: \<^verbatim>\<open>PushSuccessors(x, y)\<close> builds the neighbour \<open>(x, y + 1)\<close> only when
  \<open>y + 1\<close> is within the option snapshot, and never reads a snapshot outside its
  bounds. The code, on an edge with \<open>K = 2\<close>, two hypotheses and one option: the first
  pop returns the cell \<open>(0, 0)\<close>; the snapshot of options has one slot; the cell
  \<open>(0, 1)\<close> is not marked seen, so \<^verbatim>\<open>PushSuccessors(0, 0)\<close> reads
  \<^verbatim>\<open>m_kbest_translations[1]\<close>, past the storage. \<^verbatim>\<open>FindKBestHypotheses\<close> on a
  container with this edge runs into the same read.
\<close>

theorem PushSuccessors_reads_past_snapshot:
  "map_sum id fst (Dequeue additive False (new_edge [hypA, hypB] [optX] 2))
     = Inr (Some hypAX, (0, 0))
   \<and> vec_capacity (m_kbest_translations (popped (new_edge [hypA, hypB] [optX] 2))) = 1
   \<and> SeenPosition (popped (new_edge [hypA, hypB] [optX] 2)) 0 1 = Inr False
   \<and> vec_at (m_kbest_translations (popped (new_edge [hypA, hypB] [optX] 2))) (to_size_t 1)
       = Inl OutOfBounds
   \<and> PushSuccessors additive 0 0 (popped (new_edge [hypA, hypB] [optX] 2)) = Inl OutOfBounds
   \<and> FindKBestHypotheses additive
        (AddBackwardsEdge (1, new_edge [hypA, hypB] [optX] 2) sample_container)
       = Inl (OutOfBounds, [Some hypAX])"
  by code_simp


section \<open>Hypothesis creation with linked options\<close>

lemma length_SetValue [simp]: "length (SetValue bm r) = length bm"
  by (simp add: SetValue_def)

lemma nth_SetValue:
  "pos < length bm \<Longrightarrow> SetValue bm r ! pos = (bm ! pos \<or> (fst r \<le> pos \<and> pos \<le> snd r))"
  by (simp add: SetValue_def)

lemma coverage_after_Nil [simp]: "coverage_after bm [] = bm"
  by (simp add: coverage_after_def)

lemma coverage_after_Cons [simp]:
  "coverage_after bm (l # ls) = coverage_after (SetValue bm (GetSourceWordsRange l)) ls"
  by (simp add: coverage_after_def)

lemma length_coverage_after [simp]: "length (coverage_after bm ls) = length bm"
  by (induction ls arbitrary: bm) simp_all

lemma coverage_after_mono:
  "pos < length bm \<Longrightarrow> bm ! pos \<Longrightarrow> coverage_after bm ls ! pos"
  by (induction ls arbitrary: bm) (simp_all add: nth_SetValue)

lemma covers_SetValue: "covers (SetValue bm r) r"
  by (auto simp: covers_def nth_SetValue)

lemma covers_coverage_after:
  "covers bm r \<Longrightarrow> covers (coverage_after bm ls) r"
  by (auto simp: covers_def coverage_after_mono)

lemma covers_coverage_after_member:
  "l \<in> set ls \<Longrightarrow> covers (coverage_after bm ls) (GetSourceWordsRange l)"
proof (induction ls arbitrary: bm)
  case Nil
  then show ?case by simp
next
  case (Cons a ls)
  show ?case
  proof (cases "l = a")
    case True
    then show ?thesis
      by (simp add: covers_coverage_after covers_SetValue)
  next
    case False
    with Cons show ?thesis by simp
  qed
qed

lemma linked_conflict_Nil [simp]: "\<not> linked_conflict bm []"
  by (simp add: linked_conflict_def)

lemma linked_conflict_Cons:
  "linked_conflict bm (l # ls) \<longleftrightarrow>
     Overlap bm (GetSourceWordsRange l) \<or> linked_conflict (SetValue bm (GetSourceWordsRange l)) ls"
proof -
  have idx: "set [0 ..< length (l # ls)] = {i. i < Suc (length ls)}"
    by auto
  have "linked_conflict bm (l # ls) \<longleftrightarrow>
          (\<exists>i<Suc (length ls).
             Overlap (coverage_after bm (take i (l # ls))) (GetSourceWordsRange ((l # ls) ! i)))"
    unfolding linked_conflict_def idx by blast
  also have "\<dots> \<longleftrightarrow> Overlap bm (GetSourceWordsRange l)
      \<or> (\<exists>i<length ls.
           Overlap (coverage_after (SetValue bm (GetSourceWordsRange l)) (take i ls))
             (GetSourceWordsRange (ls ! i)))"
    by (simp add: Ex_less_Suc2)
  also have "\<dots> \<longleftrightarrow> Overlap bm (GetSourceWordsRange l)
      \<or> linked_conflict (SetValue bm (GetSourceWordsRange l)) ls"
    by (auto simp: linked_conflict_def)
  finally show ?thesis .
qed

lemma GetWordsBitmap_CalcScore [simp]:
  "GetWordsBitmap (CalcScore calc fs h) = GetWordsBitmap h"
  by (simp add: CalcScore_def)


lemma CreateHypothesis_linked_conflict:
  "linked_conflict (GetWordsBitmap newHypo) ls \<Longrightarrow>
   CreateHypothesis_linked calc fs newHypo ls = Inr None"
proof (induction ls arbitrary: newHypo)
  case Nil
  then show ?case by simp
next
  case (Cons l ls)
  then show ?case
    by (auto simp: linked_conflict_Cons CreateNext_def Let_def)
qed

lemma CreateHypothesis_linked_ok:
  "\<not> linked_conflict (GetWordsBitmap newHypo) ls \<Longrightarrow>
   \<exists>h'. CreateHypothesis_linked calc fs newHypo ls = Inr (Some h')
        \<and> GetWordsBitmap h' = coverage_after (GetWordsBitmap newHypo) ls"
proof (induction ls arbitrary: newHypo)
  case Nil
  then show ?case by simp
next
  case (Cons l ls)
  let ?n = "Hypothesis (Some (CalcScore calc fs newHypo)) (Some l)
              (SetValue (GetWordsBitmap newHypo) (GetSourceWordsRange l)) (Some 0)"
  from Cons.prems have no: "\<not> Overlap (GetWordsBitmap newHypo) (GetSourceWordsRange l)"
    and rest: "\<not> linked_conflict (GetWordsBitmap ?n) ls"
    by (simp_all add: linked_conflict_Cons)
  from no have step: "CreateHypothesis_linked calc fs newHypo (l # ls) = CreateHypothesis_linked calc fs ?n ls"
    by (simp add: CreateNext_def)
  from Cons.IH [OF rest] show ?case
    unfolding step by simp
qed

text \<open>
  C8. Extension with a linked group is all or nothing. When the option's own span is
  free (otherwise \<^verbatim>\<open>CreateNext\<close> aborts with \<open>IllegalCoverage\<close>),
  \<^verbatim>\<open>CreateHypothesis\<close> returns null exactly if some linked option's span overlaps the
  coverage accumulated when that option's turn comes; otherwise it returns a hypothesis
  whose coverage is the old coverage with the option and all its linked options applied,
  so it covers the span of the option and of every linked option.
\<close>

theorem CreateHypothesis_linked_atomic:
  "(Overlap (GetWordsBitmap h) (GetSourceWordsRange opt) \<longrightarrow>
      CreateHypothesis calc fs h opt = Inl IllegalCoverage)
   \<and> (\<not> Overlap (GetWordsBitmap h) (GetSourceWordsRange opt) \<longrightarrow>
      linked_conflict (SetValue (GetWordsBitmap h) (GetSourceWordsRange opt)) (GetLinkedTransOpts opt) \<longrightarrow>
      CreateHypothesis calc fs h opt = Inr None)
   \<and> (\<not> Overlap (GetWordsBitmap h) (GetSourceWordsRange opt) \<longrightarrow>
      \<not> linked_conflict (SetValue (GetWordsBitmap h) (GetSourceWordsRange opt)) (GetLinkedTransOpts opt) \<longrightarrow>
      (\<exists>h'. CreateHypothesis calc fs h opt = Inr (Some h')
         \<and> GetWordsBitmap h' = coverage_after (GetWordsBitmap h) (opt # GetLinkedTransOpts opt)
         \<and> covers (GetWordsBitmap h') (GetSourceWordsRange opt)
         \<and> (\<forall>l \<in> set (GetLinkedTransOpts opt). covers (GetWordsBitmap h') (GetSourceWordsRange l))))"
proof (intro conjI impI)
  assume "Overlap (GetWordsBitmap h) (GetSourceWordsRange opt)"
  then show "CreateHypothesis calc fs h opt = Inl IllegalCoverage"
    by (simp add: CreateHypothesis_def CreateNext_def)
next
  assume no: "\<not> Overlap (GetWordsBitmap h) (GetSourceWordsRange opt)"
    and conflict: "linked_conflict (SetValue (GetWordsBitmap h) (GetSourceWordsRange opt)) (GetLinkedTransOpts opt)"
  from no have next_eq: "CreateNext h opt = Inr (Hypothesis (Some h) (Some opt) (SetValue (GetWordsBitmap h) (GetSourceWordsRange opt)) (Some 0))"
    by (simp add: CreateNext_def)
  from conflict show "CreateHypothesis calc fs h opt = Inr None"
    by (simp add: CreateHypothesis_def next_eq CreateHypothesis_linked_conflict)
next
  assume no: "\<not> Overlap (GetWordsBitmap h) (GetSourceWordsRange opt)"
    and ok: "\<not> linked_conflict (SetValue (GetWordsBitmap h) (GetSourceWordsRange opt)) (GetLinkedTransOpts opt)"
  let ?n = "Hypothesis (Some h) (Some opt) (SetValue (GetWordsBitmap h) (GetSourceWordsRange opt)) (Some 0)"
  from no have next_eq: "CreateNext h opt = Inr ?n"
    by (simp add: CreateNext_def)
  from ok have "\<not> linked_conflict (GetWordsBitmap ?n) (GetLinkedTransOpts opt)" by simp
  from CreateHypothesis_linked_ok [OF this, of calc fs]
  obtain h1 where h1: "CreateHypothesis_linked calc fs ?n (GetLinkedTransOpts opt) = Inr (Some h1)"
    and bm1: "GetWordsBitmap h1 = coverage_after (GetWordsBitmap ?n) (GetLinkedTransOpts opt)"
    by blast
  have res: "CreateHypothesis calc fs h opt = Inr (Some (CalcScore calc fs h1))"
    by (simp add: CreateHypothesis_def next_eq h1)
  have bm: "GetWordsBitmap (CalcScore calc fs h1) = coverage_after (GetWordsBitmap h) (opt # GetLinkedTransOpts opt)"
    by (simp add: bm1)
  have c1: "covers (GetWordsBitmap (CalcScore calc fs h1)) (GetSourceWordsRange opt)"
    unfolding bm by (simp add: covers_coverage_after covers_SetValue)
  have c2: "\<forall>l \<in> set (GetLinkedTransOpts opt). covers (GetWordsBitmap (CalcScore calc fs h1)) (GetSourceWordsRange l)"
    unfolding bm by (simp add: covers_coverage_after_member)
  from res bm c1 c2
  show "\<exists>h'. CreateHypothesis calc fs h opt = Inr (Some h')
         \<and> GetWordsBitmap h' = coverage_after (GetWordsBitmap h) (opt # GetLinkedTransOpts opt)
         \<and> covers (GetWordsBitmap h') (GetSourceWordsRange opt)
         \<and> (\<forall>l \<in> set (GetLinkedTransOpts opt). covers (GetWordsBitmap h') (GetSourceWordsRange l))"
    by blast
qed

theorem CreateHypothesis_linked_atomic_witness:
  "\<not> Overlap (GetWordsBitmap hypA) (GetSourceWordsRange optL)
   \<and> \<not> linked_conflict (SetValue (GetWordsBitmap hypA) (GetSourceWordsRange optL))
         (GetLinkedTransOpts optL)
   \<and> (\<exists>h'. CreateHypothesis additive [] hypA optL = Inr (Some h')
          \<and> GetWordsBitmap h' = [True, False, True]
          \<and> covers (GetWordsBitmap h') (0, 0))
   \<and> \<not> Overlap (GetWordsBitmap hypA) (GetSourceWordsRange optBad)
   \<and> linked_conflict (SetValue (GetWordsBitmap hypA) (GetSourceWordsRange optBad))
       (GetLinkedTransOpts optBad)
   \<and> CreateHypothesis additive [] hypA optBad = Inr None"
proof -
  have a: "\<not> Overlap (GetWordsBitmap hypA) (GetSourceWordsRange optL)"
    by code_simp
  have b: "\<not> linked_conflict (SetValue (GetWordsBitmap hypA) (GetSourceWordsRange optL))
             (GetLinkedTransOpts optL)"
    by code_simp
  have cov: "coverage_after (GetWordsBitmap hypA) (optL # GetLinkedTransOpts optL)
               = [True, False, True]"
    by code_simp
  have span: "GetSourceWordsRange optL = (0, 0)"
    by (simp add: optL_def)
  have c: "\<not> Overlap (GetWordsBitmap hypA) (GetSourceWordsRange optBad)"
    by code_simp
  have d: "linked_conflict (SetValue (GetWordsBitmap hypA) (GetSourceWordsRange optBad))
             (GetLinkedTransOpts optBad)"
    by code_simp
  from CreateHypothesis_linked_atomic [where h = hypA and opt = optL and calc = additive and fs = "[]"]
    a b
  have "\<exists>h'. CreateHypothesis additive [] hypA optL = Inr (Some h')
          \<and> GetWordsBitmap h' = [True, False, True]
          \<and> covers (GetWordsBitmap h') (0, 0)"
    unfolding cov span by blast
  moreover
  from CreateHypothesis_linked_atomic [where h = hypA and opt = optBad and calc = additive and fs = "[]"]
    c d
  have "CreateHypothesis additive [] hypA optBad = Inr None"
    by blast
  ultimately show ?thesis
    using a b c d by blast
qed



section \<open>One call of FindKBestHypotheses is one round\<close>

text \<open>
  C4. The claim: one call of \<^verbatim>\<open>FindKBestHypotheses\<close> repeats the round of pop, admit
  and push until a pop limit, drained edges or the beam threshold stop it. The code, on a
  container with one edge over two hypotheses and two options: a single call admits one
  hypothesis, the cell \<open>(0, 0)\<close>, and returns with the cells \<open>(0, 1)\<close> and
  \<open>(1, 0)\<close> still in the queue of the edge. The function has no loop around the round,
  although its own comment says "repeat k times".
\<close>

theorem FindKBestHypotheses_single_round:
  "map_sum id (\<lambda>c'. (m_stack c', map (\<lambda>p. (fst p, map snd (m_queue (snd p)))) (m_edges c')))
     (FindKBestHypotheses additive
        (AddBackwardsEdge (1, new_edge [hypA, hypB] [optX, optY] 2) sample_container))
   = Inr ([Some hypAX], [(1, [(0, 1), (1, 0)])])"
  by code_simp


section \<open>The queue and the seen bitmap of an edge\<close>

lemma bits_set_Inr:
  "bits_set bs i = Inr bs' \<Longrightarrow> unat i < length bs \<and> bs' = bs[unat i := True]"
  by (auto simp: bits_set_def split: if_splits)

lemma bits_at_after_set:
  "bits_set bs i = Inr bs' \<Longrightarrow>
   bits_at bs' j = (if j = i then Inr True else bits_at bs j)"
  by (auto simp: bits_set_def bits_at_def nth_list_update word_unat_eq_iff split: if_splits)

lemma set_insert_between:
  "set (takeWhile P q @ c # dropWhile P q) = insert c (set q)"
proof -
  have "set (takeWhile P q) \<union> set (dropWhile P q) = set (takeWhile P q @ dropWhile P q)"
    by (rule set_append [symmetric])
  also have "\<dots> = set q"
    by (simp only: takeWhile_dropWhile_id)
  finally show ?thesis by simp
qed

lemma queue_push_set:
  "queue_push c q = Inr q' \<Longrightarrow> set q' = insert c (set q)"
  by (auto simp: queue_push_def set_insert_between simp del: set_append split: if_splits)

lemma insert_sorted_desc:
  fixes f :: "'a \<Rightarrow> score"
  shows "sorted_wrt (\<ge>) (map f q) \<Longrightarrow>
   sorted_wrt (\<ge>) (map f (takeWhile (\<lambda>d. f c \<le> f d) q @ c # dropWhile (\<lambda>d. f c \<le> f d) q))"
proof (induction q)
  case Nil
  then show ?case by simp
next
  case (Cons d q)
  show ?case
  proof (cases "f c \<le> f d")
    case True
    have sub: "set (takeWhile (\<lambda>d. f c \<le> f d) q @ c # dropWhile (\<lambda>d. f c \<le> f d) q) = insert c (set q)"
      by (rule set_insert_between)
    from Cons.prems have tl: "sorted_wrt (\<ge>) (map f q)" and hd: "\<forall>x \<in> set q. f x \<le> f d"
      by auto
    from Cons.IH [OF tl] True hd sub show ?thesis
      by auto
  next
    case False
    then have lt: "f d < f c" by simp
    from Cons.prems have hd: "\<forall>x \<in> set q. f x \<le> f d"
      by auto
    with lt have "\<forall>x \<in> set q. f x \<le> f c" by force
    with Cons.prems lt False show ?thesis by auto
  qed
qed

lemma queue_push_sorted:
  "queue_push c q = Inr q' \<Longrightarrow> sorted_wrt (\<ge>) (map chunk_score q) \<Longrightarrow>
   sorted_wrt (\<ge>) (map chunk_score q')"
  using insert_sorted_desc [of chunk_score q c]
  by (auto simp: queue_push_def split: if_splits)

lemma Enqueue_Inr:
  assumes "Enqueue x y ho e = Inr e'"
  shows "queue_push (ho, (x, y)) (m_queue e) = Inr (m_queue e')"
    and "bits_set (m_seenPosition e) (seen_index e x y) = Inr (m_seenPosition e')"
    and "same_grid e e'"
  using assms by (auto simp: Enqueue_def same_grid_def split: sum.splits)

lemma same_grid_refl [simp]: "same_grid e e"
  by (simp add: same_grid_def)

lemma same_grid_trans: "same_grid e e1 \<Longrightarrow> same_grid e1 e2 \<Longrightarrow> same_grid e e2"
  by (simp add: same_grid_def)

lemma same_grid_cell: "same_grid e e' \<Longrightarrow> grid_cell calc e' x y = grid_cell calc e x y"
  by (simp add: same_grid_def grid_cell_def cong: sum.case_cong)

lemma same_grid_index: "same_grid e e' \<Longrightarrow> seen_index e' x y = seen_index e x y"
  by (simp add: same_grid_def seen_index_def)

lemma Enqueue_SeenPosition:
  assumes "Enqueue x y ho e = Inr e'"
  shows "SeenPosition e' x' y' =
           (if seen_index e x' y' = seen_index e x y then Inr True else SeenPosition e x' y')"
  using Enqueue_Inr [OF assms]
  by (simp add: SeenPosition_def same_grid_index bits_at_after_set)

lemma PushSuccessors_block_cases:
  assumes "PushSuccessors_block calc x' y' e = Inr e'"
  shows "(SeenPosition e x' y' = Inr True \<and> e' = e)
       \<or> (SeenPosition e x' y' = Inr False \<and> grid_cell calc e x' y' = Inr None \<and> e' = e)
       \<or> (\<exists>h. SeenPosition e x' y' = Inr False \<and> grid_cell calc e x' y' = Inr (Some h)
             \<and> Enqueue x' y' (Some h) e = Inr e')"
  using assms
  by (auto simp: PushSuccessors_block_def split: sum.splits bool.splits option.splits)

lemma PushSuccessors_block_same_grid:
  "PushSuccessors_block calc x' y' e = Inr e' \<Longrightarrow> same_grid e e'"
  using PushSuccessors_block_cases [of calc x' y' e e'] Enqueue_Inr(3) by fastforce

lemma PushSuccessors_block_seen_self:
  assumes "PushSuccessors_block calc x' y' e = Inr e'" and "SeenPosition e x' y' = Inr False"
  shows "SeenPosition e' x' y' = Inr (grid_cell calc e x' y' \<noteq> Inr None)"
  using PushSuccessors_block_cases [OF assms(1)] assms(2)
  by (auto simp: Enqueue_SeenPosition)

lemma PushSuccessors_block_seen_other:
  assumes "PushSuccessors_block calc x' y' e = Inr e'"
    and "seen_index e x'' y'' \<noteq> seen_index e x' y'"
  shows "SeenPosition e' x'' y'' = SeenPosition e x'' y''"
  using PushSuccessors_block_cases [OF assms(1)] assms(2)
  by (auto simp: Enqueue_SeenPosition)

lemma neighbour_indices_differ:
  assumes "m_kbest e \<noteq> 1"
  shows "seen_index e x (y + 1) \<noteq> seen_index e (x + 1) y"
proof
  assume "seen_index e x (y + 1) = seen_index e (x + 1) y"
  then have "m_kbest e * word_of_int x + (word_of_int y + 1)
             = m_kbest e * (word_of_int x + 1) + word_of_int y"
    by (simp add: seen_index_def to_size_t_def)
  then have "m_kbest e = 1"
    by (simp add: algebra_simps)
  with assms show False by simp
qed

lemma PushSuccessors_Inr:
  assumes "PushSuccessors calc x y e = Inr e'"
  shows "\<exists>e1. x \<noteq> INT_MAX \<and> y \<noteq> INT_MAX
           \<and> PushSuccessors_block calc x (y + 1) e = Inr e1
           \<and> PushSuccessors_block calc (x + 1) y e1 = Inr e'"
  using assms
  by (auto simp: PushSuccessors_def int_succ_def split: sum.splits if_splits)

text \<open>
  C5, as the code has it. The claim: a neighbour whose construction fails is marked seen
  all the same. The code marks a cell only inside \<^verbatim>\<open>Enqueue\<close>, which it calls for a
  non-null hypothesis. So, for an edge with \<open>K \<noteq> 1\<close> and a call
  \<^verbatim>\<open>PushSuccessors(x, y)\<close> that completes: a neighbour \<open>(x, y + 1)\<close> or
  \<open>(x + 1, y)\<close> that was not seen before is seen afterwards exactly if its construction
  returned a hypothesis; after a failed construction its entry is still false. (With
  \<open>K = 1\<close> both neighbours share one entry of the bitmap.)
\<close>

theorem PushSuccessors_seen_iff_created:
  assumes "PushSuccessors calc x y e = Inr e'"
    and "m_kbest e \<noteq> 1"
    and "(x', y') = (x, y + 1) \<or> (x', y') = (x + 1, y)"
    and "SeenPosition e x' y' = Inr False"
  shows "SeenPosition e' x' y' = Inr (grid_cell calc e x' y' \<noteq> Inr None)"
proof -
  from PushSuccessors_Inr [OF assms(1)] obtain e1
    where b1: "PushSuccessors_block calc x (y + 1) e = Inr e1"
      and b2: "PushSuccessors_block calc (x + 1) y e1 = Inr e'"
    by blast
  have g1: "same_grid e e1"
    using b1 by (rule PushSuccessors_block_same_grid)
  have diff: "seen_index e x (y + 1) \<noteq> seen_index e (x + 1) y"
    using assms(2) by (rule neighbour_indices_differ)
  from assms(3) show ?thesis
  proof
    assume "(x', y') = (x, y + 1)"
    then have xy: "x' = x" "y' = y + 1" by simp_all
    have "SeenPosition e1 x (y + 1) = Inr (grid_cell calc e x (y + 1) \<noteq> Inr None)"
      using b1 assms(4) unfolding xy by (rule PushSuccessors_block_seen_self)
    moreover have "SeenPosition e' x (y + 1) = SeenPosition e1 x (y + 1)"
    proof (rule PushSuccessors_block_seen_other [OF b2])
      show "seen_index e1 x (y + 1) \<noteq> seen_index e1 (x + 1) y"
        using diff by (simp add: same_grid_index [OF g1])
    qed
    ultimately show ?thesis by (simp add: xy)
  next
    assume "(x', y') = (x + 1, y)"
    then have xy: "x' = x + 1" "y' = y" by simp_all
    have "SeenPosition e1 (x + 1) y = SeenPosition e (x + 1) y"
      using b1 diff [symmetric] by (rule PushSuccessors_block_seen_other)
    with assms(4) have unseen: "SeenPosition e1 (x + 1) y = Inr False" by (simp add: xy)
    have "SeenPosition e' (x + 1) y = Inr (grid_cell calc e1 (x + 1) y \<noteq> Inr None)"
      using b2 unseen by (rule PushSuccessors_block_seen_self)
    then show ?thesis by (simp add: xy same_grid_cell [OF g1])
  qed
qed


theorem PushSuccessors_seen_iff_created_witness:
  "\<not> isl (PushSuccessors additive 0 0 edge_bad)
   \<and> m_kbest edge_bad \<noteq> 1
   \<and> SeenPosition edge_bad 0 1 = Inr False
   \<and> grid_cell additive edge_bad 0 1 = Inr None
   \<and> SeenPosition (projr (PushSuccessors additive 0 0 edge_bad)) 0 1 = Inr False
   \<and> SeenPosition edge_bad 1 0 = Inr False
   \<and> grid_cell additive edge_bad 1 0 = Inr (Some hypBX)
   \<and> SeenPosition (projr (PushSuccessors additive 0 0 edge_bad)) 1 0 = Inr True"
proof -
  have ok: "\<not> isl (PushSuccessors additive 0 0 edge_bad)"
    by code_simp
  then have run: "PushSuccessors additive 0 0 edge_bad = Inr (projr (PushSuccessors additive 0 0 edge_bad))"
    by simp
  have k: "m_kbest edge_bad \<noteq> 1"
    by code_simp
  have s1: "SeenPosition edge_bad 0 1 = Inr False"
    by code_simp
  have s2: "SeenPosition edge_bad 1 0 = Inr False"
    by code_simp
  have c1: "grid_cell additive edge_bad 0 1 = Inr None"
    by code_simp
  have c2: "grid_cell additive edge_bad 1 0 = Inr (Some hypBX)"
    by code_simp
  have "SeenPosition (projr (PushSuccessors additive 0 0 edge_bad)) 0 1
          = Inr (grid_cell additive edge_bad 0 1 \<noteq> Inr None)"
    using PushSuccessors_seen_iff_created [OF run k _ s1] by simp
  then have r1: "SeenPosition (projr (PushSuccessors additive 0 0 edge_bad)) 0 1 = Inr False"
    by (simp add: c1)
  have "SeenPosition (projr (PushSuccessors additive 0 0 edge_bad)) 1 0
          = Inr (grid_cell additive edge_bad 1 0 \<noteq> Inr None)"
    using PushSuccessors_seen_iff_created [OF run k _ s2] by simp
  then have r2: "SeenPosition (projr (PushSuccessors additive 0 0 edge_bad)) 1 0 = Inr True"
    by (simp add: c2)
  from ok k s1 c1 r1 s2 c2 r2 show ?thesis by simp
qed

text \<open>
  C5, the claim as stated fails: on \<open>edge_bad\<close> the neighbour \<open>(0, 1)\<close> of
  \<open>(0, 0)\<close> is within both snapshots and not seen, its construction returns null, and
  after \<^verbatim>\<open>PushSuccessors(0, 0)\<close> its entry in the bitmap is still false.
\<close>

theorem PushSuccessors_failed_cell_unseen:
  "SeenPosition edge_bad 0 1 = Inr False
   \<and> to_size_t 1 = 1
   \<and> vec_capacity (m_kbest_translations edge_bad) = 2
   \<and> grid_cell additive edge_bad 0 1 = Inr None
   \<and> map_sum id (\<lambda>e'. SeenPosition e' 0 1) (PushSuccessors additive 0 0 edge_bad)
      = Inr (Inr False)"
  by code_simp


section \<open>Peeking at the edges of a container\<close>

lemma Initialize_initialized:
  "Initialize calc e = Inr e' \<Longrightarrow> m_initialized e'"
  by (auto simp: Initialize_def split: sum.splits)

lemma Dequeue_Inr:
  assumes "Dequeue calc keepValue e = Inr (cur, e')"
  shows "m_initialized e'"
    and "fst cur \<noteq> None \<Longrightarrow> keepValue \<Longrightarrow> \<exists>q. m_queue e' = cur # q"
  using assms
  by (auto simp: Dequeue_def InvalidSquarePosition_def Initialize_initialized
      split: sum.splits list.splits if_splits)

lemma Dequeue_initialized:
  "m_initialized e \<Longrightarrow>
   Dequeue calc keepValue e =
     (case m_queue e of
        [] \<Rightarrow> Inr (InvalidSquarePosition, e)
      | ret # rest \<Rightarrow> Inr (ret, if \<not> keepValue then e\<lparr>m_queue := rest\<rparr> else e))"
  by (simp add: Dequeue_def)

lemma peek_edges_fails_at_drained:
  assumes "m_initialized e" and "m_queue e = []"
  shows "\<exists>err. peek_edges calc (pre @ (a, e) # post) bestEdge bestScore = Inl err"
proof (induction pre arbitrary: bestEdge bestScore)
  case Nil
  from assms show ?case
    by (simp add: Dequeue_initialized InvalidSquarePosition_def)
next
  case (Cons p pre)
  obtain b d where p: "p = (b, d)" by (cases p)
  show ?case
  proof (cases "Dequeue calc True d")
    case (Inl err)
    then show ?thesis by (simp add: p)
  next
    case (Inr r)
    obtain cur d' where r: "r = (cur, d')" by (cases r)
    show ?thesis
    proof (cases "fst cur")
      case None
      then show ?thesis by (simp add: p Inr r)
    next
      case (Some h)
      from Cons.IH [of "Some b" "GetTotalScore h"] obtain err1
        where e1: "peek_edges calc (pre @ (a, e) # post) (Some b) (GetTotalScore h) = Inl err1"
        by blast
      from Cons.IH [of bestEdge bestScore] obtain err2
        where e2: "peek_edges calc (pre @ (a, e) # post) bestEdge bestScore = Inl err2"
        by blast
      show ?thesis
        by (simp add: p Inr r Some e1 e2)
    qed
  qed
qed

lemma peek_edges_null_at_drained:
  assumes "m_initialized e" and "m_queue e = []"
    and "\<forall>p \<in> set pre. \<exists>h xy d'. Dequeue calc True (snd p) = Inr ((Some h, xy), d')"
  shows "peek_edges calc (pre @ (a, e) # post) bestEdge bestScore = Inl NullPointerDereference"
  using assms(3)
proof (induction pre arbitrary: bestEdge bestScore)
  case Nil
  from assms(1,2) show ?case
    by (simp add: Dequeue_initialized InvalidSquarePosition_def)
next
  case (Cons p pre)
  obtain b d where p: "p = (b, d)" by (cases p)
  from Cons.prems obtain h xy d' where dq: "Dequeue calc True d = Inr ((Some h, xy), d')"
    by (auto simp: p)
  from Cons.prems have rest: "\<forall>p \<in> set pre. \<exists>h xy d'. Dequeue calc True (snd p) = Inr ((Some h, xy), d')"
    by simp
  show ?case
    by (simp add: p dq Cons.IH [OF rest])
qed

text \<open>
  C3. \<^verbatim>\<open>FindKBestHypotheses\<close> reads the score of every peeked position through its
  hypothesis pointer, without a test. An edge that is initialized and has an empty queue
  answers the peek with the invalid position \<open>(NULL, (-1, -1))\<close>, so a container that
  holds such an edge never gets through the call; when the edges before it in the set
  peek at a hypothesis, the failure is the null dereference at the drained edge.
\<close>

theorem FindKBestHypotheses_drained_edge:
  assumes "m_edges c = pre @ (a, e) # post"
    and "m_initialized e" and "m_queue e = []"
  shows "Dequeue calc True e = Inr ((None, (- 1, - 1)), e)
       \<and> isl (FindKBestHypotheses calc c)
       \<and> ((\<forall>p \<in> set pre. \<exists>h xy d'. Dequeue calc True (snd p) = Inr ((Some h, xy), d')) \<longrightarrow>
            FindKBestHypotheses calc c = Inl (NullPointerDereference, m_stack c))"
proof (intro conjI impI)
  from assms(2,3) show "Dequeue calc True e = Inr ((None, (- 1, - 1)), e)"
    by (simp add: Dequeue_initialized InvalidSquarePosition_def)
next
  from peek_edges_fails_at_drained [OF assms(2,3), of calc pre a post None None]
  obtain err where "peek_edges calc (m_edges c) None None = Inl err"
    by (auto simp: assms(1))
  then show "isl (FindKBestHypotheses calc c)"
    by (simp add: FindKBestHypotheses_def assms(1))
next
  assume "\<forall>p \<in> set pre. \<exists>h xy d'. Dequeue calc True (snd p) = Inr ((Some h, xy), d')"
  from peek_edges_null_at_drained [OF assms(2,3) this]
  have "peek_edges calc (m_edges c) None None = Inl NullPointerDereference"
    by (simp add: assms(1))
  then show "FindKBestHypotheses calc c = Inl (NullPointerDereference, m_stack c)"
    by (simp add: FindKBestHypotheses_def assms(1))
qed

theorem FindKBestHypotheses_drained_edge_witness:
  "m_edges container_drained = [(1, edge_fresh)] @ (2, edge_drained) # []
   \<and> m_initialized edge_drained
   \<and> m_queue edge_drained = []
   \<and> map_sum id fst (Dequeue additive True edge_fresh) = Inr (Some hypAX, (0, 0))
   \<and> Dequeue additive True edge_drained = Inr ((None, (- 1, - 1)), edge_drained)
   \<and> FindKBestHypotheses additive container_drained
       = Inl (NullPointerDereference, m_stack container_drained)"
proof -
  have a: "m_edges container_drained = [(1, edge_fresh)] @ (2, edge_drained) # []"
    by code_simp
  have b: "m_initialized edge_drained"
    by code_simp
  have c: "m_queue edge_drained = []"
    by code_simp
  have d: "map_sum id fst (Dequeue additive True edge_fresh) = Inr (Some hypAX, (0, 0))"
    by code_simp
  then have "\<exists>h xy d'. Dequeue additive True edge_fresh = Inr ((Some h, xy), d')"
    by (cases "Dequeue additive True edge_fresh") auto
  then have e: "\<forall>p \<in> set [(1::nat, edge_fresh)]. \<exists>h xy d'. Dequeue additive True (snd p) = Inr ((Some h, xy), d')"
    by simp
  from FindKBestHypotheses_drained_edge [OF a b c, of additive] e
  have "Dequeue additive True edge_drained = Inr ((None, (- 1, - 1)), edge_drained)
        \<and> FindKBestHypotheses additive container_drained
       = Inl (NullPointerDereference, m_stack container_drained)"
    by blast
  with a b c d show ?thesis by simp
qed


section \<open>One round of FindKBestHypotheses\<close>

lemma peek_edges_Cons_Inr:
  assumes "peek_edges calc ((a, e) # edges) be bs = Inr (edges', be', bs')"
  obtains h xy q e1 edges''
  where "Dequeue calc True e = Inr ((Some h, xy), e1)"
    and "m_initialized e1" and "m_queue e1 = (Some h, xy) # q"
    and "edges' = (a, e1) # edges''"
    and "bs < GetTotalScore h \<Longrightarrow> peek_edges calc edges (Some a) (GetTotalScore h) = Inr (edges'', be', bs')"
    and "\<not> bs < GetTotalScore h \<Longrightarrow> peek_edges calc edges be bs = Inr (edges'', be', bs')"
proof (cases "Dequeue calc True e")
  case (Inl err)
  with assms show ?thesis by simp
next
  case (Inr r)
  obtain cur e1 where r: "r = (cur, e1)" by (cases r)
  show ?thesis
  proof (cases "fst cur")
    case None
    with assms Inr r show ?thesis by simp
  next
    case (Some h)
    then obtain xy where cur: "cur = (Some h, xy)" by (cases cur) simp
    have dq: "Dequeue calc True e = Inr ((Some h, xy), e1)"
      using Inr r cur by simp
    from Dequeue_Inr [OF dq] obtain q where init: "m_initialized e1" and q: "m_queue e1 = (Some h, xy) # q"
      by auto
    let ?rec = "if bs < GetTotalScore h
                then peek_edges calc edges (Some a) (GetTotalScore h)
                else peek_edges calc edges be bs"
    show ?thesis
    proof (cases ?rec)
      case (Inl err)
      with assms dq show ?thesis by (simp split: if_splits)
    next
      case rec: (Inr rr)
      obtain edges'' b2 s2 where rr: "rr = (edges'', b2, s2)" by (cases rr)
      from assms dq rec rr have eq: "edges' = (a, e1) # edges''" "be' = b2" "bs' = s2"
        by (simp_all split: if_splits)
      show ?thesis
      proof (rule that [OF dq init q eq(1)])
        assume "bs < GetTotalScore h"
        with rec rr eq show "peek_edges calc edges (Some a) (GetTotalScore h) = Inr (edges'', be', bs')"
          by simp
      next
        assume "\<not> bs < GetTotalScore h"
        with rec rr eq show "peek_edges calc edges be bs = Inr (edges'', be', bs')"
          by simp
      qed
    qed
  qed
qed

lemma peek_edges_keys:
  "peek_edges calc edges be bs = Inr (edges', be', bs') \<Longrightarrow> map fst edges' = map fst edges"
proof (induction edges arbitrary: be bs edges' be' bs')
  case Nil
  then show ?case by simp
next
  case (Cons p edges)
  obtain a e where p: "p = (a, e)" by (cases p)
  from Cons.prems [unfolded p] show ?case
  proof (rule peek_edges_Cons_Inr)
    fix h xy q e1 edges''
    assume eq: "edges' = (a, e1) # edges''"
      and gt: "bs < GetTotalScore h \<Longrightarrow> peek_edges calc edges (Some a) (GetTotalScore h) = Inr (edges'', be', bs')"
      and le: "\<not> bs < GetTotalScore h \<Longrightarrow> peek_edges calc edges be bs = Inr (edges'', be', bs')"
    have "map fst edges'' = map fst edges"
      using Cons.IH gt le by (cases "bs < GetTotalScore h") blast+
    then show ?thesis by (simp add: eq p)
  qed
qed

lemma peek_edges_peeked:
  "peek_edges calc edges be bs = Inr (edges', be', bs') \<Longrightarrow>
   list_all2 (\<lambda>p p'. \<exists>cur. Dequeue calc True (snd p) = Inr (cur, snd p')) edges edges'"
proof (induction edges arbitrary: be bs edges' be' bs')
  case Nil
  then show ?case by simp
next
  case (Cons p edges)
  obtain a e where p: "p = (a, e)" by (cases p)
  from Cons.prems [unfolded p] show ?case
  proof (rule peek_edges_Cons_Inr)
    fix h xy q e1 edges''
    assume dq: "Dequeue calc True e = Inr ((Some h, xy), e1)"
      and eq: "edges' = (a, e1) # edges''"
      and gt: "bs < GetTotalScore h \<Longrightarrow> peek_edges calc edges (Some a) (GetTotalScore h) = Inr (edges'', be', bs')"
      and le: "\<not> bs < GetTotalScore h \<Longrightarrow> peek_edges calc edges be bs = Inr (edges'', be', bs')"
    have "list_all2 (\<lambda>p p'. \<exists>cur. Dequeue calc True (snd p) = Inr (cur, snd p')) edges edges''"
      using Cons.IH gt le by (cases "bs < GetTotalScore h") blast+
    with dq show ?thesis by (simp add: eq p)
  qed
qed

lemma peek_edges_tops:
  "peek_edges calc edges be bs = Inr (edges', be', bs') \<Longrightarrow>
   \<forall>p \<in> set edges'. m_initialized (snd p) \<and> (\<exists>h xy q. m_queue (snd p) = (Some h, xy) # q)"
proof (induction edges arbitrary: be bs edges' be' bs')
  case Nil
  then show ?case by simp
next
  case (Cons p edges)
  obtain a e where p: "p = (a, e)" by (cases p)
  from Cons.prems [unfolded p] show ?case
  proof (rule peek_edges_Cons_Inr)
    fix h xy q e1 edges''
    assume init: "m_initialized e1" and q: "m_queue e1 = (Some h, xy) # q"
      and eq: "edges' = (a, e1) # edges''"
      and gt: "bs < GetTotalScore h \<Longrightarrow> peek_edges calc edges (Some a) (GetTotalScore h) = Inr (edges'', be', bs')"
      and le: "\<not> bs < GetTotalScore h \<Longrightarrow> peek_edges calc edges be bs = Inr (edges'', be', bs')"
    have "\<forall>p \<in> set edges''. m_initialized (snd p) \<and> (\<exists>h xy q. m_queue (snd p) = (Some h, xy) # q)"
      using Cons.IH gt le by (cases "bs < GetTotalScore h") blast+
    with init q show ?thesis by (simp add: eq)
  qed
qed

lemma peek_edges_best:
  "peek_edges calc edges be bs = Inr (edges', be', bs') \<Longrightarrow>
     (be' = be \<and> bs' = bs \<and> (\<forall>p \<in> set edges'. chunk_score (hd (m_queue (snd p))) \<le> bs))
   \<or> (\<exists>pre a e' post. edges' = pre @ (a, e') # post \<and> be' = Some a \<and> bs < bs'
         \<and> chunk_score (hd (m_queue e')) = bs'
         \<and> (\<forall>p \<in> set pre. chunk_score (hd (m_queue (snd p))) < bs')
         \<and> (\<forall>p \<in> set post. chunk_score (hd (m_queue (snd p))) \<le> bs'))"
proof (induction edges arbitrary: be bs edges' be' bs')
  case Nil
  then show ?case by simp
next
  case (Cons p edges)
  obtain a e where p: "p = (a, e)" by (cases p)
  from Cons.prems [unfolded p] show ?case
  proof (rule peek_edges_Cons_Inr)
    fix h xy q e1 edges''
    assume q: "m_queue e1 = (Some h, xy) # q"
      and eq: "edges' = (a, e1) # edges''"
      and gt: "bs < GetTotalScore h \<Longrightarrow> peek_edges calc edges (Some a) (GetTotalScore h) = Inr (edges'', be', bs')"
      and le: "\<not> bs < GetTotalScore h \<Longrightarrow> peek_edges calc edges be bs = Inr (edges'', be', bs')"
    have top: "chunk_score (hd (m_queue e1)) = GetTotalScore h"
      by (simp add: q chunk_score_def)
    show ?thesis
    proof (cases "bs < GetTotalScore h")
      case True
      from Cons.IH [OF gt [OF True]] show ?thesis
      proof
        assume same: "be' = Some a \<and> bs' = GetTotalScore h
                      \<and> (\<forall>p \<in> set edges''. chunk_score (hd (m_queue (snd p))) \<le> GetTotalScore h)"
        have split': "edges' = [] @ (a, e1) # edges''" by (simp add: eq)
        have b: "be' = Some a" and lt: "bs < bs'" and t: "chunk_score (hd (m_queue e1)) = bs'"
          using same True top by simp_all
        have before': "\<forall>p \<in> set []. chunk_score (hd (m_queue (snd p))) < bs'"
          by simp
        have after': "\<forall>p \<in> set edges''. chunk_score (hd (m_queue (snd p))) \<le> bs'"
          using same by simp
        have "\<exists>pre a e' post. edges' = pre @ (a, e') # post \<and> be' = Some a \<and> bs < bs'
                \<and> chunk_score (hd (m_queue e')) = bs'
                \<and> (\<forall>p \<in> set pre. chunk_score (hd (m_queue (snd p))) < bs')
                \<and> (\<forall>p \<in> set post. chunk_score (hd (m_queue (snd p))) \<le> bs')"
          using split' b lt t before' after' by (intro exI conjI)
        then show ?thesis by (rule disjI2)
      next
        assume "\<exists>pre a2 e2 post. edges'' = pre @ (a2, e2) # post \<and> be' = Some a2
                  \<and> GetTotalScore h < bs' \<and> chunk_score (hd (m_queue e2)) = bs'
                  \<and> (\<forall>p \<in> set pre. chunk_score (hd (m_queue (snd p))) < bs')
                  \<and> (\<forall>p \<in> set post. chunk_score (hd (m_queue (snd p))) \<le> bs')"
        then obtain pre a2 e2 post where split: "edges'' = pre @ (a2, e2) # post"
          and b: "be' = Some a2" and lt: "GetTotalScore h < bs'"
          and t: "chunk_score (hd (m_queue e2)) = bs'"
          and before: "\<forall>p \<in> set pre. chunk_score (hd (m_queue (snd p))) < bs'"
          and after: "\<forall>p \<in> set post. chunk_score (hd (m_queue (snd p))) \<le> bs'"
          by blast
        have split': "edges' = ((a, e1) # pre) @ (a2, e2) # post"
          by (simp add: eq split)
        have before': "\<forall>p \<in> set ((a, e1) # pre). chunk_score (hd (m_queue (snd p))) < bs'"
          using before lt top by simp
        have lt': "bs < bs'" using True lt by simp
        have "\<exists>pre a e' post. edges' = pre @ (a, e') # post \<and> be' = Some a \<and> bs < bs'
                \<and> chunk_score (hd (m_queue e')) = bs'
                \<and> (\<forall>p \<in> set pre. chunk_score (hd (m_queue (snd p))) < bs')
                \<and> (\<forall>p \<in> set post. chunk_score (hd (m_queue (snd p))) \<le> bs')"
          using split' b lt' t before' after by (intro exI conjI)
        then show ?thesis by (rule disjI2)
      qed
    next
      case False
      from Cons.IH [OF le [OF False]] show ?thesis
      proof
        assume same: "be' = be \<and> bs' = bs
                      \<and> (\<forall>p \<in> set edges''. chunk_score (hd (m_queue (snd p))) \<le> bs)"
        from False have "GetTotalScore h \<le> bs" by simp
        with same top show ?thesis by (simp add: eq)
      next
        assume "\<exists>pre a2 e2 post. edges'' = pre @ (a2, e2) # post \<and> be' = Some a2
                  \<and> bs < bs' \<and> chunk_score (hd (m_queue e2)) = bs'
                  \<and> (\<forall>p \<in> set pre. chunk_score (hd (m_queue (snd p))) < bs')
                  \<and> (\<forall>p \<in> set post. chunk_score (hd (m_queue (snd p))) \<le> bs')"
        then obtain pre a2 e2 post where split: "edges'' = pre @ (a2, e2) # post"
          and b: "be' = Some a2" and lt: "bs < bs'"
          and t: "chunk_score (hd (m_queue e2)) = bs'"
          and before: "\<forall>p \<in> set pre. chunk_score (hd (m_queue (snd p))) < bs'"
          and after: "\<forall>p \<in> set post. chunk_score (hd (m_queue (snd p))) \<le> bs'"
          by blast
        have split': "edges' = ((a, e1) # pre) @ (a2, e2) # post"
          by (simp add: eq split)
        from False lt have "GetTotalScore h < bs'" by simp
        then have before': "\<forall>p \<in> set ((a, e1) # pre). chunk_score (hd (m_queue (snd p))) < bs'"
          using before top by simp
        have "\<exists>pre a e' post. edges' = pre @ (a, e') # post \<and> be' = Some a \<and> bs < bs'
                \<and> chunk_score (hd (m_queue e')) = bs'
                \<and> (\<forall>p \<in> set pre. chunk_score (hd (m_queue (snd p))) < bs')
                \<and> (\<forall>p \<in> set post. chunk_score (hd (m_queue (snd p))) \<le> bs')"
          using split' b lt t before' after by (intro exI conjI)
        then show ?thesis by (rule disjI2)
      qed
    qed
  qed
qed


lemma map_of_middle:
  "distinct (map fst (pre @ (a, e) # post)) \<Longrightarrow> map_of (pre @ (a, e) # post) a = Some e"
  by (induction pre) (auto simp: rev_image_eqI)

section \<open>The order of the pops of an edge\<close>

lemma unat_to_size_t:
  "0 \<le> x \<Longrightarrow> x \<le> INT_MAX \<Longrightarrow> unat (to_size_t x) = nat x"
  by (simp add: to_size_t_def INT_MAX_def unat_eq_nat_uint uint_word_of_int)

lemma Enqueue_initialized:
  "Enqueue x y ho e = Inr e' \<Longrightarrow> m_initialized e' = m_initialized e"
  by (auto simp: Enqueue_def split: sum.splits)

lemma PushSuccessors_block_initialized:
  "PushSuccessors_block calc x' y' e = Inr e' \<Longrightarrow> m_initialized e' = m_initialized e"
  using PushSuccessors_block_cases [of calc x' y' e e'] Enqueue_initialized by fastforce

lemma same_grid_genuine:
  "same_grid e e' \<Longrightarrow> genuine calc e' c = genuine calc e c"
  by (simp add: genuine_def same_grid_cell split: prod.splits)

lemma same_grid_cell_le:
  "same_grid e e' \<Longrightarrow> cell_le calc e' x y h = cell_le calc e x y h"
  by (simp add: cell_le_def same_grid_cell)

lemma same_grid_monotone:
  assumes "same_grid e e'"
  shows "grid_monotone calc e' = grid_monotone calc e"
proof -
  have caps: "m_kbest_hypotheses e' = m_kbest_hypotheses e"
    "m_kbest_translations e' = m_kbest_translations e"
    using assms by (simp_all add: same_grid_def)
  have cells: "\<And>x y. grid_cell calc e' x y = grid_cell calc e x y"
    using assms by (rule same_grid_cell)
  have les: "\<And>x y h. cell_le calc e' x y h = cell_le calc e x y h"
    using assms by (rule same_grid_cell_le)
  show ?thesis
    unfolding grid_monotone_def caps cells les ..
qed

lemma genuine_successors:
  assumes "genuine calc e (Some h, (x, y))" and "grid_monotone calc e"
  shows "cell_le calc e x (y + 1) h" and "cell_le calc e (x + 1) y h"
proof -
  from assms(1) have x: "0 \<le> x" "x \<le> INT_MAX" and y: "0 \<le> y" "y \<le> INT_MAX"
    and cell: "grid_cell calc e x y = Inr (Some h)"
    by (simp_all add: genuine_def)
  from cell have "unat (to_size_t x) < vec_capacity (m_kbest_hypotheses e)"
    by (auto simp: grid_cell_def vec_at_def split: if_splits sum.splits)
  then have i: "nat x \<in> set [0 ..< vec_capacity (m_kbest_hypotheses e)]"
    using x by (simp add: unat_to_size_t)
  from cell have "unat (to_size_t y) < vec_capacity (m_kbest_translations e)"
    by (auto simp: grid_cell_def vec_at_def split: if_splits sum.splits)
  then have j: "nat y \<in> set [0 ..< vec_capacity (m_kbest_translations e)]"
    using y by (simp add: unat_to_size_t)
  from assms(2) i j
  have "case grid_cell calc e (int (nat x)) (int (nat y)) of
          Inr (Some h) \<Rightarrow>
            cell_le calc e (int (nat x)) (int (nat y) + 1) h
            \<and> cell_le calc e (int (nat x) + 1) (int (nat y)) h
        | _ \<Rightarrow> True"
    unfolding grid_monotone_def by blast
  with x y cell show "cell_le calc e x (y + 1) h" and "cell_le calc e (x + 1) y h"
    by simp_all
qed


lemma PushSuccessors_block_inv:
  assumes run: "PushSuccessors_block calc x' y' e = Inr e'"
    and inv: "queue_inv calc e"
    and coords: "0 \<le> x'" "x' \<le> INT_MAX" "0 \<le> y'" "y' \<le> INT_MAX"
    and le: "cell_le calc e x' y' h"
    and bound: "\<forall>c \<in> set (m_queue e). chunk_score c \<le> GetTotalScore h"
  shows "queue_inv calc e' \<and> (\<forall>c \<in> set (m_queue e'). chunk_score c \<le> GetTotalScore h)"
proof -
  from PushSuccessors_block_cases [OF run]
  consider "e' = e"
    | h' where "grid_cell calc e x' y' = Inr (Some h')" and "Enqueue x' y' (Some h') e = Inr e'"
    by blast
  then show ?thesis
  proof cases
    case 1
    with inv bound show ?thesis by simp
  next
    case 2
    note enq = Enqueue_Inr [OF 2(2)]
    have init: "m_initialized e'"
      using Enqueue_initialized [OF 2(2)] inv by (simp add: queue_inv_def)
    have sorted: "sorted_wrt (\<ge>) (map chunk_score (m_queue e'))"
      using enq(1) inv by (auto simp: queue_inv_def intro: queue_push_sorted)
    have elems: "set (m_queue e') = insert (Some h', (x', y')) (set (m_queue e))"
      using enq(1) by (rule queue_push_set)
    have new: "genuine calc e (Some h', (x', y'))"
      using coords 2(1) by (simp add: genuine_def)
    have gen: "\<forall>c \<in> set (m_queue e'). genuine calc e' c"
      using inv new by (simp add: elems queue_inv_def same_grid_genuine [OF enq(3)])
    have "chunk_score (Some h', (x', y')) \<le> GetTotalScore h"
      using le 2(1) by (simp add: cell_le_def chunk_score_def)
    with bound have "\<forall>c \<in> set (m_queue e'). chunk_score c \<le> GetTotalScore h"
      by (simp add: elems)
    with init sorted gen show ?thesis by (simp add: queue_inv_def)
  qed
qed

lemma PushSuccessors_inv:
  assumes run: "PushSuccessors calc x y e = Inr e'"
    and inv: "queue_inv calc e"
    and popped: "genuine calc e (Some h, (x, y))"
    and mono: "grid_monotone calc e"
    and bound: "\<forall>c \<in> set (m_queue e). chunk_score c \<le> GetTotalScore h"
  shows "queue_inv calc e'" and "\<forall>c \<in> set (m_queue e'). chunk_score c \<le> GetTotalScore h"
    and "same_grid e e'"
proof -
  from PushSuccessors_Inr [OF run] obtain e1
    where x: "x \<noteq> INT_MAX" and y: "y \<noteq> INT_MAX"
      and b1: "PushSuccessors_block calc x (y + 1) e = Inr e1"
      and b2: "PushSuccessors_block calc (x + 1) y e1 = Inr e'"
    by blast
  from popped have c: "0 \<le> x" "x \<le> INT_MAX" "0 \<le> y" "y \<le> INT_MAX"
    by (simp_all add: genuine_def)
  have c1: "0 \<le> y + 1" "y + 1 \<le> INT_MAX" and c2: "0 \<le> x + 1" "x + 1 \<le> INT_MAX"
    using c x y by simp_all
  note succ = genuine_successors [OF popped mono]
  have g1: "same_grid e e1"
    using b1 by (rule PushSuccessors_block_same_grid)
  have g2: "same_grid e1 e'"
    using b2 by (rule PushSuccessors_block_same_grid)
  from PushSuccessors_block_inv [OF b1 inv c(1,2) c1 succ(1) bound]
  have inv1: "queue_inv calc e1" and bound1: "\<forall>c \<in> set (m_queue e1). chunk_score c \<le> GetTotalScore h"
    by simp_all
  have le2: "cell_le calc e1 (x + 1) y h"
    using succ(2) by (simp add: same_grid_cell_le [OF g1])
  from PushSuccessors_block_inv [OF b2 inv1 c2 c(3,4) le2 bound1]
  show "queue_inv calc e'" and "\<forall>c \<in> set (m_queue e'). chunk_score c \<le> GetTotalScore h"
    by simp_all
  from g1 g2 show "same_grid e e'"
    by (rule same_grid_trans)
qed

lemma Initialize_Inr:
  assumes "Initialize calc e = Inr e'" and "m_queue e = []"
  shows "\<exists>expanded. grid_cell calc e 0 0 = Inr expanded \<and> m_queue e' = [(expanded, (0, 0))]"
    and "same_grid e e'" and "m_initialized e'"
  using assms
  by (auto simp: Initialize_def Enqueue_def queue_push_def same_grid_def split: sum.splits)

lemma Dequeue_pop_initialized:
  assumes inv: "queue_inv calc e" and dq: "Dequeue calc False e = Inr ((Some h, xy), e1)"
  shows "queue_inv calc e1" and "genuine calc e1 (Some h, xy)"
    and "\<forall>c \<in> set (m_queue e1). chunk_score c \<le> GetTotalScore h"
    and "same_grid e e1" and "(Some h, xy) \<in> set (m_queue e)"
proof -
  from inv have init: "m_initialized e" by (simp add: queue_inv_def)
  from dq init obtain rest where q: "m_queue e = (Some h, xy) # rest" and e1: "e1 = e\<lparr>m_queue := rest\<rparr>"
    by (auto simp: Dequeue_initialized InvalidSquarePosition_def split: list.splits)
  show g: "same_grid e e1" by (simp add: e1 same_grid_def)
  show "(Some h, xy) \<in> set (m_queue e)" by (simp add: q)
  from inv q show "queue_inv calc e1"
    by (simp add: queue_inv_def e1 same_grid_genuine [OF g [unfolded e1]])
  from inv q show "genuine calc e1 (Some h, xy)"
    by (simp add: queue_inv_def same_grid_genuine [OF g])
  from inv q show "\<forall>c \<in> set (m_queue e1). chunk_score c \<le> GetTotalScore h"
    by (auto simp: queue_inv_def e1 chunk_score_def)
qed

lemma Dequeue_pop_fresh:
  assumes fresh: "\<not> m_initialized e" "m_queue e = []"
    and dq: "Dequeue calc False e = Inr ((Some h, xy), e1)"
  shows "queue_inv calc e1" and "genuine calc e1 (Some h, xy)"
    and "\<forall>c \<in> set (m_queue e1). chunk_score c \<le> GetTotalScore h"
    and "same_grid e e1"
proof -
  have "\<exists>ei. Initialize calc e = Inr ei \<and> Dequeue calc False ei = Inr ((Some h, xy), e1)"
  proof (cases "Initialize calc e")
    case (Inl err)
    with dq fresh(1) show ?thesis by (simp add: Dequeue_def)
  next
    case (Inr ei)
    have "m_initialized ei" using Inr by (rule Initialize_initialized)
    with dq fresh(1) Inr show ?thesis by (simp add: Dequeue_def)
  qed
  then obtain ei where ini: "Initialize calc e = Inr ei"
    and pop: "Dequeue calc False ei = Inr ((Some h, xy), e1)"
    by blast
  from Initialize_Inr [OF ini fresh(2)] obtain expanded
    where cell: "grid_cell calc e 0 0 = Inr expanded" and q: "m_queue ei = [(expanded, (0, 0))]"
      and g: "same_grid e ei" and init: "m_initialized ei"
    by blast
  from pop init q have ex: "expanded = Some h" and xy: "xy = (0, 0)" and e1: "e1 = ei\<lparr>m_queue := []\<rparr>"
    by (simp_all add: Dequeue_initialized)
  have g1: "same_grid ei e1" by (simp add: e1 same_grid_def)
  show g': "same_grid e e1" using g g1 by (rule same_grid_trans)
  show "queue_inv calc e1" using init by (simp add: queue_inv_def e1)
  show "\<forall>c \<in> set (m_queue e1). chunk_score c \<le> GetTotalScore h" by (simp add: e1)
  have "genuine calc e (Some h, xy)"
    using cell by (simp add: genuine_def ex xy INT_MAX_def)
  then show "genuine calc e1 (Some h, xy)"
    by (simp add: same_grid_genuine [OF g'])
qed

lemma pop_sequence_step:
  assumes "Dequeue calc False e = Inr ((Some h, (x, y)), e1)"
  shows "pop_sequence calc (Suc n) e =
           h # (case PushSuccessors calc x y e1 of Inl err \<Rightarrow> [] | Inr e2 \<Rightarrow> pop_sequence calc n e2)"
  using assms by simp

lemma pop_sequence_stop:
  assumes "\<And>h xy e1. Dequeue calc False e \<noteq> Inr ((Some h, xy), e1)"
  shows "pop_sequence calc (Suc n) e = []"
proof (cases "Dequeue calc False e")
  case (Inl err)
  then show ?thesis by simp
next
  case (Inr r)
  obtain pos e1 where r: "r = (pos, e1)" by (cases r)
  obtain ho xy where pos: "pos = (ho, xy)" by (cases pos)
  from assms [of _ xy e1] Inr r pos have "ho = None" by (cases ho) auto
  with Inr r pos show ?thesis by simp
qed

lemma pop_sequence_bounded:
  assumes "queue_inv calc e" and "grid_monotone calc e"
  shows "sorted_wrt (\<ge>) (map GetTotalScore (pop_sequence calc n e))
       \<and> (\<forall>b. (\<forall>c \<in> set (m_queue e). chunk_score c \<le> b) \<longrightarrow>
               (\<forall>h \<in> set (pop_sequence calc n e). GetTotalScore h \<le> b))"
  using assms
proof (induction n arbitrary: e)
  case 0
  then show ?case by simp
next
  case (Suc n)
  show ?case
  proof (cases "\<exists>h xy e1. Dequeue calc False e = Inr ((Some h, xy), e1)")
    case False
    then have "pop_sequence calc (Suc n) e = []"
      by (intro pop_sequence_stop) blast
    then show ?thesis by simp
  next
    case True
    then obtain h x y e1 where dq: "Dequeue calc False e = Inr ((Some h, (x, y)), e1)"
      by (metis surj_pair)
    note pop = Dequeue_pop_initialized [OF Suc.prems(1) dq]
    have mono1: "grid_monotone calc e1"
      using Suc.prems(2) by (simp add: same_grid_monotone [OF pop(4)])
    have top: "\<forall>b. (\<forall>c \<in> set (m_queue e). chunk_score c \<le> b) \<longrightarrow> GetTotalScore h \<le> b"
      using pop(5) by (auto simp: chunk_score_def)
    show ?thesis
    proof (cases "PushSuccessors calc x y e1")
      case (Inl err)
      with dq have "pop_sequence calc (Suc n) e = [h]" by simp
      with top show ?thesis by simp
    next
      case (Inr e2)
      note push = PushSuccessors_inv [OF Inr pop(1) pop(2) mono1 pop(3)]
      have mono2: "grid_monotone calc e2"
        using mono1 by (simp add: same_grid_monotone [OF push(3)])
      from Suc.IH [OF push(1) mono2] push(2)
      have sorted: "sorted_wrt (\<ge>) (map GetTotalScore (pop_sequence calc n e2))"
        and below: "\<forall>h' \<in> set (pop_sequence calc n e2). GetTotalScore h' \<le> GetTotalScore h"
        by blast+
      have eq: "pop_sequence calc (Suc n) e = h # pop_sequence calc n e2"
        using dq Inr by simp
      have "\<forall>b. (\<forall>c \<in> set (m_queue e). chunk_score c \<le> b) \<longrightarrow>
               (\<forall>h' \<in> set (h # pop_sequence calc n e2). GetTotalScore h' \<le> b)"
        using top below by (auto intro: order_trans)
      with sorted below show ?thesis
        unfolding eq by simp
    qed
  qed
qed

text \<open>
  C9. Take an edge as its constructor builds it and drive it as
  \<^verbatim>\<open>FindKBestHypotheses\<close> does, each \<^verbatim>\<open>Dequeue(false)\<close> followed by
  \<^verbatim>\<open>PushSuccessors\<close> at the popped position. If no cell of the grid scores higher
  than the cell it succeeds, the total scores of the hypotheses popped, in the order of
  the pops, never increase.
\<close>

theorem pop_sequence_monotone:
  assumes "BackwardsEdge_ctor prev translations futureScore K = Inr e"
    and "grid_monotone calc e"
  shows "sorted_wrt (\<ge>) (map GetTotalScore (pop_sequence calc n e))"
proof (cases n)
  case 0
  then show ?thesis by simp
next
  case (Suc m)
  from assms(1) have fresh: "\<not> m_initialized e" "m_queue e = []"
    by (auto simp: BackwardsEdge_ctor_eq)
  show ?thesis
  proof (cases "\<exists>h xy e1. Dequeue calc False e = Inr ((Some h, xy), e1)")
    case False
    then have "pop_sequence calc (Suc m) e = []"
      by (intro pop_sequence_stop) blast
    then show ?thesis by (simp add: Suc)
  next
    case True
    then obtain h x y e1 where dq: "Dequeue calc False e = Inr ((Some h, (x, y)), e1)"
      by (metis surj_pair)
    note pop = Dequeue_pop_fresh [OF fresh dq]
    have mono1: "grid_monotone calc e1"
      using assms(2) by (simp add: same_grid_monotone [OF pop(4)])
    show ?thesis
    proof (cases "PushSuccessors calc x y e1")
      case (Inl err)
      with dq show ?thesis by (simp add: Suc)
    next
      case (Inr e2)
      note push = PushSuccessors_inv [OF Inr pop(1) pop(2) mono1 pop(3)]
      have mono2: "grid_monotone calc e2"
        using mono1 by (simp add: same_grid_monotone [OF push(3)])
      from pop_sequence_bounded [OF push(1) mono2, of m] push(2)
      have sorted: "sorted_wrt (\<ge>) (map GetTotalScore (pop_sequence calc m e2))"
        and below: "\<forall>h' \<in> set (pop_sequence calc m e2). GetTotalScore h' \<le> GetTotalScore h"
        by blast+
      have eq: "pop_sequence calc (Suc m) e = h # pop_sequence calc m e2"
        using dq Inr by simp
      from sorted below show ?thesis
        unfolding Suc eq by simp
    qed
  qed
qed


theorem pop_sequence_monotone_witness:
  "BackwardsEdge_ctor (sample_prev [hypA, hypB]) [optX, optY] [] 2 = Inr edge_fresh
   \<and> grid_monotone additive edge_fresh
   \<and> pop_sequence additive 3 edge_fresh = [hypAX, hypAY, hypBX]
   \<and> map GetTotalScore (pop_sequence additive 3 edge_fresh) = [Some (- 1), Some (- 2), Some (- 2)]
   \<and> sorted_wrt (\<ge>) (map GetTotalScore (pop_sequence additive 3 edge_fresh))"
proof -
  have built: "BackwardsEdge_ctor (sample_prev [hypA, hypB]) [optX, optY] [] 2 = Inr edge_fresh"
    by (simp add: edge_fresh_def new_edge_def BackwardsEdge_ctor_eq)
  have mono: "grid_monotone additive edge_fresh"
    by code_simp
  have pops: "pop_sequence additive 3 edge_fresh = [hypAX, hypAY, hypBX]"
    by code_simp
  have scores: "map GetTotalScore (pop_sequence additive 3 edge_fresh)
                  = [Some (- 1), Some (- 2), Some (- 2)]"
    by code_simp
  from built mono pops scores pop_sequence_monotone [OF built mono, of 3]
  show ?thesis by blast
qed


section \<open>The pruning settings of StaticData::LoadData\<close>

lemma output_formats_ok_Scan_size_t [simp]:
  "output_formats_ok (env\<lparr>Scan_size_t := f\<rparr>) parameter = output_formats_ok env parameter"
  by (simp add: output_formats_ok_def)

lemma LoadChartDecodingParameters_throws_Scan_size_t [simp]:
  "LoadChartDecodingParameters_throws (env\<lparr>Scan_size_t := f\<rparr>) parameter
     = LoadChartDecodingParameters_throws env parameter"
  by (simp add: LoadChartDecodingParameters_throws_def LoadNonTerminals_throws_def
      cong: option.case_cong list.case_cong)

lemma LoadData_rejects:
  assumes given: "GetParam parameter ''stack-diversity'' = Some (v # vs)"
    and bad: "SetParameter_int env parameter ''distortion-limit'' (- 1) > 15
         \<or> SetParameter_InputTypeEnum env parameter ''inputtype'' SentenceInput = WordLatticeInput"
  shows "fst (LoadData env rest parameter s0) \<noteq> Returned True"
    and "reaches_pruning env parameter \<Longrightarrow>
         LoadData env rest parameter s0 =
           (Returned False,
            s0\<lparr>m_inputType := SetParameter_InputTypeEnum env parameter ''inputtype'' SentenceInput,
               m_maxDistortion := SetParameter_int env parameter ''distortion-limit'' (- 1),
               m_minHypoStackDiversity := 0\<rparr>)"
    and "LoadData (env\<lparr>Scan_size_t := f\<rparr>) rest parameter s0 = LoadData env rest parameter s0"
proof -
  show "fst (LoadData env rest parameter s0) \<noteq> Returned True"
    using bad by (auto simp: LoadData_def Let_def given)
  show "LoadData env rest parameter s0 =
           (Returned False,
            s0\<lparr>m_inputType := SetParameter_InputTypeEnum env parameter ''inputtype'' SentenceInput,
               m_maxDistortion := SetParameter_int env parameter ''distortion-limit'' (- 1),
               m_minHypoStackDiversity := 0\<rparr>)"
    if "reaches_pruning env parameter"
    using bad that by (auto simp: LoadData_def Let_def given reaches_pruning_def)
  show "LoadData (env\<lparr>Scan_size_t := f\<rparr>) rest parameter s0 = LoadData env rest parameter s0"
    using bad by (auto simp: LoadData_def Let_def given)
qed

lemma LoadData_default:
  assumes "GetParam parameter ''stack-diversity'' = None \<or> GetParam parameter ''stack-diversity'' = Some []"
    and "reaches_pruning env parameter"
  shows "m_minHypoStackDiversity (snd (LoadData env rest parameter s0)) = 0"
    and "fst (LoadData env rest parameter s0) = rest (snd (LoadData env rest parameter s0))"
  using assms by (auto simp: LoadData_def Let_def reaches_pruning_def)

text \<open>
  C10, as the code has it. When \<^verbatim>\<open>stack-diversity\<close> is given with at least one value
  and the distortion limit read from the configuration is above 15, or the input type is
  word lattice, \<^verbatim>\<open>LoadData\<close> never returns \<^verbatim>\<open>true\<close>: if it gets as far as the
  pruning settings it returns \<^verbatim>\<open>false\<close> there, with the diversity at 0, and the value
  of \<^verbatim>\<open>stack-diversity\<close> is never parsed (the result does not depend on the parser).
  When \<^verbatim>\<open>stack-diversity\<close> is absent or has no value and \<^verbatim>\<open>LoadData\<close> gets as far
  as the pruning settings, the minimum stack diversity is 0 and the call goes on.
\<close>

theorem LoadData_stack_diversity:
  "(GetParam parameter ''stack-diversity'' = Some (v # vs) \<longrightarrow>
      (SetParameter_int env parameter ''distortion-limit'' (- 1) > 15
       \<or> SetParameter_InputTypeEnum env parameter ''inputtype'' SentenceInput = WordLatticeInput) \<longrightarrow>
      fst (LoadData env rest parameter s0) \<noteq> Returned True
      \<and> (reaches_pruning env parameter \<longrightarrow>
           LoadData env rest parameter s0 =
             (Returned False,
              s0\<lparr>m_inputType := SetParameter_InputTypeEnum env parameter ''inputtype'' SentenceInput,
                 m_maxDistortion := SetParameter_int env parameter ''distortion-limit'' (- 1),
                 m_minHypoStackDiversity := 0\<rparr>))
      \<and> LoadData (env\<lparr>Scan_size_t := f\<rparr>) rest parameter s0 = LoadData env rest parameter s0)
   \<and> ((GetParam parameter ''stack-diversity'' = None
        \<or> GetParam parameter ''stack-diversity'' = Some []) \<longrightarrow>
      reaches_pruning env parameter \<longrightarrow>
      m_minHypoStackDiversity (snd (LoadData env rest parameter s0)) = 0
      \<and> fst (LoadData env rest parameter s0) = rest (snd (LoadData env rest parameter s0)))"
proof (intro conjI impI)
  assume given: "GetParam parameter ''stack-diversity'' = Some (v # vs)"
    and bad: "SetParameter_int env parameter ''distortion-limit'' (- 1) > 15
         \<or> SetParameter_InputTypeEnum env parameter ''inputtype'' SentenceInput = WordLatticeInput"
  show "fst (LoadData env rest parameter s0) \<noteq> Returned True"
    using given bad by (rule LoadData_rejects(1))
  show "LoadData (env\<lparr>Scan_size_t := f\<rparr>) rest parameter s0 = LoadData env rest parameter s0"
    using given bad by (rule LoadData_rejects(3))
  assume "reaches_pruning env parameter"
  with given bad
  show "LoadData env rest parameter s0 =
          (Returned False,
           s0\<lparr>m_inputType := SetParameter_InputTypeEnum env parameter ''inputtype'' SentenceInput,
              m_maxDistortion := SetParameter_int env parameter ''distortion-limit'' (- 1),
              m_minHypoStackDiversity := 0\<rparr>)"
    by (rule LoadData_rejects(2))
next
  assume absent: "GetParam parameter ''stack-diversity'' = None
        \<or> GetParam parameter ''stack-diversity'' = Some []"
    and reach: "reaches_pruning env parameter"
  show "m_minHypoStackDiversity (snd (LoadData env rest parameter s0)) = 0"
    using absent reach by (rule LoadData_default(1))
  show "fst (LoadData env rest parameter s0) = rest (snd (LoadData env rest parameter s0))"
    using absent reach by (rule LoadData_default(2))
qed

theorem LoadData_stack_diversity_witness:
  "GetParam config_far ''stack-diversity'' = Some [''3'']
   \<and> SetParameter_int sample_env config_far ''distortion-limit'' (- 1) = 20
   \<and> reaches_pruning sample_env config_far
   \<and> LoadData sample_env (\<lambda>s. Returned True) config_far sample_static
       = (Returned False,
          \<lparr>m_inputType = SentenceInput, m_maxDistortion = 20, m_minHypoStackDiversity = 0\<rparr>)
   \<and> GetParam config_lattice ''stack-diversity'' = Some [''3'']
   \<and> SetParameter_InputTypeEnum sample_env config_lattice ''inputtype'' SentenceInput = WordLatticeInput
   \<and> fst (LoadData sample_env (\<lambda>s. Returned True) config_lattice sample_static) \<noteq> Returned True
   \<and> GetParam config_plain ''stack-diversity'' = None
   \<and> reaches_pruning sample_env config_plain
   \<and> m_minHypoStackDiversity (snd (LoadData sample_env (\<lambda>s. Returned True) config_plain sample_static)) = 0
   \<and> GetParam config_novalue ''stack-diversity'' = Some []
   \<and> reaches_pruning sample_env config_novalue
   \<and> m_minHypoStackDiversity (snd (LoadData sample_env (\<lambda>s. Returned True) config_novalue sample_static)) = 0"
proof -
  have a: "GetParam config_far ''stack-diversity'' = Some (''3'' # [])" by code_simp
  have b: "SetParameter_int sample_env config_far ''distortion-limit'' (- 1) = 20" by code_simp
  have b': "SetParameter_InputTypeEnum sample_env config_far ''inputtype'' SentenceInput = SentenceInput"
    by code_simp
  have r: "reaches_pruning sample_env config_far" by code_simp
  have c: "GetParam config_lattice ''stack-diversity'' = Some (''3'' # [])" by code_simp
  have d: "SetParameter_InputTypeEnum sample_env config_lattice ''inputtype'' SentenceInput = WordLatticeInput"
    by code_simp
  have e: "GetParam config_plain ''stack-diversity'' = None" by code_simp
  have f: "reaches_pruning sample_env config_plain" by code_simp
  have g: "GetParam config_novalue ''stack-diversity'' = Some []" by code_simp
  have h: "reaches_pruning sample_env config_novalue" by code_simp
  from LoadData_stack_diversity [where parameter = config_far and env = sample_env and v = "''3''" and vs = "[]"
      and rest = "\<lambda>s. Returned True" and ?s0.0 = sample_static] a b b' r
  have r1: "LoadData sample_env (\<lambda>s. Returned True) config_far sample_static
       = (Returned False,
          \<lparr>m_inputType = SentenceInput, m_maxDistortion = 20, m_minHypoStackDiversity = 0\<rparr>)"
    by (simp add: sample_static_def)
  from LoadData_stack_diversity [where parameter = config_lattice and env = sample_env and v = "''3''" and vs = "[]"
      and rest = "\<lambda>s. Returned True" and ?s0.0 = sample_static] c d
  have r2: "fst (LoadData sample_env (\<lambda>s. Returned True) config_lattice sample_static) \<noteq> Returned True"
    by simp
  from LoadData_stack_diversity [where parameter = config_plain and env = sample_env
      and rest = "\<lambda>s. Returned True" and ?s0.0 = sample_static] e f
  have r3: "m_minHypoStackDiversity (snd (LoadData sample_env (\<lambda>s. Returned True) config_plain sample_static)) = 0"
    by simp
  from LoadData_stack_diversity [where parameter = config_novalue and env = sample_env
      and rest = "\<lambda>s. Returned True" and ?s0.0 = sample_static] g h
  have r4: "m_minHypoStackDiversity (snd (LoadData sample_env (\<lambda>s. Returned True) config_novalue sample_static)) = 0"
    by simp
  from a b r c d e f g h r1 r2 r3 r4 show ?thesis by simp
qed

text \<open>
  C10, the claim as stated fails. With \<^verbatim>\<open>stack-diversity\<close> given without a value and
  a distortion limit of 20, \<^verbatim>\<open>LoadData\<close> is not stopped by the test and returns
  \<^verbatim>\<open>true\<close> when the rest of it does. With \<^verbatim>\<open>stack-diversity\<close> absent and a
  malformed \<^verbatim>\<open>n-best-list\<close>, it returns before the pruning settings and the
  diversity keeps its old value 7. With chart decoding and a malformed file of unknown
  left-hand sides, it leaves by an exception and does not return \<^verbatim>\<open>false\<close>.
\<close>

theorem LoadData_stack_diversity_not_always_rejected:
  "GetParam config_novalue ''stack-diversity'' = Some []
   \<and> SetParameter_int sample_env config_novalue ''distortion-limit'' (- 1) = 20
   \<and> fst (LoadData sample_env (\<lambda>s. Returned True) config_novalue sample_static) = Returned True
   \<and> GetParam config_nbest ''stack-diversity'' = None
   \<and> LoadData sample_env (\<lambda>s. Returned True) config_nbest sample_static
       = (Returned False,
          \<lparr>m_inputType = SentenceInput, m_maxDistortion = 0, m_minHypoStackDiversity = 7\<rparr>)
   \<and> GetParam config_chart ''stack-diversity'' = Some [''3'']
   \<and> SetParameter_int sample_env config_chart ''distortion-limit'' (- 1) = 20
   \<and> fst (LoadData sample_env (\<lambda>s. Returned True) config_chart sample_static) = Thrown"
  by code_simp


section \<open>One round of FindKBestHypotheses, step by step\<close>

lemma peek_edges_peeked_tops:
  "peek_edges calc edges be bs = Inr (edges', be', bs') \<Longrightarrow>
   list_all2 (\<lambda>p p'. fst p' = fst p
                \<and> (\<exists>h xy q. Dequeue calc True (snd p) = Inr ((Some h, xy), snd p')
                       \<and> m_queue (snd p') = (Some h, xy) # q)) edges edges'"
proof (induction edges arbitrary: be bs edges' be' bs')
  case Nil
  then show ?case by simp
next
  case (Cons p edges)
  obtain a e where p: "p = (a, e)" by (cases p)
  from Cons.prems [unfolded p] show ?case
  proof (rule peek_edges_Cons_Inr)
    fix h xy q e1 edges''
    assume dq: "Dequeue calc True e = Inr ((Some h, xy), e1)"
      and q: "m_queue e1 = (Some h, xy) # q"
      and eq: "edges' = (a, e1) # edges''"
      and gt: "bs < GetTotalScore h \<Longrightarrow> peek_edges calc edges (Some a) (GetTotalScore h) = Inr (edges'', be', bs')"
      and le: "\<not> bs < GetTotalScore h \<Longrightarrow> peek_edges calc edges be bs = Inr (edges'', be', bs')"
    have "list_all2 (\<lambda>p p'. fst p' = fst p
                \<and> (\<exists>h xy q. Dequeue calc True (snd p) = Inr ((Some h, xy), snd p')
                       \<and> m_queue (snd p') = (Some h, xy) # q)) edges edges''"
      using Cons.IH gt le by (cases "bs < GetTotalScore h") blast+
    with dq q show ?thesis by (simp add: eq p)
  qed
qed

lemma edge_update_middle:
  "a \<notin> fst ` set pre \<Longrightarrow> edge_update a e2 (pre @ (a, e) # post) = pre @ (a, e2) # post"
  by (induction pre) auto

text \<open>
  C7. A round of \<^verbatim>\<open>FindKBestHypotheses\<close> in which the first loop chooses an edge, on a
  container whose edges have distinct addresses. The loop peeks at every edge
  (\<open>edges1\<close> are the edges after the peeks: same addresses, each with the peeked chunk
  still on top of its queue); the edge \<open>a\<close> chosen has a top \<open>(h, (x, y))\<close> whose
  total score is the greatest among the tops of all edges; \<^verbatim>\<open>Dequeue(false)\<close> on that
  edge returns this very chunk and removes it; \<open>h\<close> is passed to \<^verbatim>\<open>AddPrune\<close>; then
  \<^verbatim>\<open>PushSuccessors(x, y)\<close> runs on the same edge. If it faults, the call of
  \<^verbatim>\<open>AddPrune\<close> has already been made; if it returns, the edge \<open>a\<close> is left in the
  state that \<^verbatim>\<open>PushSuccessors\<close> returns and every other edge as it was after the
  peek.
\<close>

theorem FindKBestHypotheses_round:
  assumes dist: "distinct (map fst (m_edges c))"
    and peek: "peek_edges calc (m_edges c) None None = Inr (edges1, Some a, s)"
  shows "\<exists>pre e post h x y q.
           edges1 = pre @ (a, e) # post
         \<and> list_all2 (\<lambda>p p'. fst p' = fst p
                \<and> (\<exists>h' xy' q'. Dequeue calc True (snd p) = Inr ((Some h', xy'), snd p')
                       \<and> m_queue (snd p') = (Some h', xy') # q')) (m_edges c) edges1
         \<and> m_queue e = (Some h, (x, y)) # q
         \<and> GetTotalScore h = s
         \<and> (\<forall>p \<in> set edges1. chunk_score (hd (m_queue (snd p))) \<le> GetTotalScore h)
         \<and> Dequeue calc False e = Inr ((Some h, (x, y)), e\<lparr>m_queue := q\<rparr>)
         \<and> FindKBestHypotheses calc c =
             (case PushSuccessors calc x y (e\<lparr>m_queue := q\<rparr>) of
                Inl err \<Rightarrow> Inl (err, m_stack c @ [Some h])
              | Inr e2 \<Rightarrow>
                  Inr (c\<lparr>m_edges := pre @ (a, e2) # post, m_stack := m_stack c @ [Some h]\<rparr>))"
proof -
  from peek_edges_best [OF peek]
  obtain pre a' e post where split0: "edges1 = pre @ (a', e) # post" and a': "Some a = Some a'"
    and top: "chunk_score (hd (m_queue e)) = s"
    and before: "\<forall>p \<in> set pre. chunk_score (hd (m_queue (snd p))) < s"
    and after: "\<forall>p \<in> set post. chunk_score (hd (m_queue (snd p))) \<le> s"
    by auto
  from a' split0 have split: "edges1 = pre @ (a, e) # post" by simp
  have keys: "map fst edges1 = map fst (m_edges c)"
    using peek by (rule peek_edges_keys)
  with dist have dist1: "distinct (map fst (pre @ (a, e) # post))"
    by (simp add: split)
  then have look: "map_of edges1 a = Some e"
    unfolding split by (rule map_of_middle)
  from dist1 have fresh: "a \<notin> fst ` set pre" by auto
  from keys split have nonempty: "m_edges c \<noteq> []" by auto
  have peeked: "list_all2 (\<lambda>p p'. fst p' = fst p
                \<and> (\<exists>h' xy' q'. Dequeue calc True (snd p) = Inr ((Some h', xy'), snd p')
                       \<and> m_queue (snd p') = (Some h', xy') # q')) (m_edges c) edges1"
    using peek by (rule peek_edges_peeked_tops)
  from peek_edges_tops [OF peek] split
  obtain h xy q where init: "m_initialized e" and q0: "m_queue e = (Some h, xy) # q"
    by auto
  obtain x y where xy: "xy = (x, y)" by (cases xy)
  have q: "m_queue e = (Some h, (x, y)) # q" using q0 xy by simp
  have s: "GetTotalScore h = s"
    using top by (simp add: q chunk_score_def)
  have best: "\<forall>p \<in> set edges1. chunk_score (hd (m_queue (snd p))) \<le> GetTotalScore h"
    unfolding split s using before after top by (auto simp: less_imp_le)
  have dq: "Dequeue calc False e = Inr ((Some h, (x, y)), e\<lparr>m_queue := q\<rparr>)"
    using init by (simp add: Dequeue_initialized q)
  have upd: "\<And>e2. edge_update a e2 edges1 = pre @ (a, e2) # post"
    unfolding split using fresh by (rule edge_update_middle)
  have run: "FindKBestHypotheses calc c =
             (case PushSuccessors calc x y (e\<lparr>m_queue := q\<rparr>) of
                Inl err \<Rightarrow> Inl (err, m_stack c @ [Some h])
              | Inr e2 \<Rightarrow>
                  Inr (c\<lparr>m_edges := pre @ (a, e2) # post, m_stack := m_stack c @ [Some h]\<rparr>))"
    using nonempty
    by (simp add: FindKBestHypotheses_def peek look dq Let_def upd split: sum.splits)
  from split peeked q s best dq run show ?thesis
    by (intro exI conjI)
qed


theorem FindKBestHypotheses_round_witness:
  "distinct (map fst (m_edges container_two))
   \<and> map_sum id snd (peek_edges additive (m_edges container_two) None None)
       = Inr (Some 2, Some (- 1))
   \<and> (\<exists>pre e post h x y q.
           fst (projr (peek_edges additive (m_edges container_two) None None)) = pre @ (2, e) # post
         \<and> list_all2 (\<lambda>p p'. fst p' = fst p
                \<and> (\<exists>h' xy' q'. Dequeue additive True (snd p) = Inr ((Some h', xy'), snd p')
                       \<and> m_queue (snd p') = (Some h', xy') # q')) (m_edges container_two) (fst (projr (peek_edges additive (m_edges container_two) None None)))
         \<and> m_queue e = (Some h, (x, y)) # q
         \<and> GetTotalScore h = Some (- 1)
         \<and> (\<forall>p \<in> set (fst (projr (peek_edges additive (m_edges container_two) None None))). chunk_score (hd (m_queue (snd p))) \<le> GetTotalScore h)
         \<and> Dequeue additive False e = Inr ((Some h, (x, y)), e\<lparr>m_queue := q\<rparr>)
         \<and> FindKBestHypotheses additive container_two =
             (case PushSuccessors additive x y (e\<lparr>m_queue := q\<rparr>) of
                Inl err \<Rightarrow> Inl (err, m_stack container_two @ [Some h])
              | Inr e2 \<Rightarrow>
                  Inr (container_two\<lparr>m_edges := pre @ (2, e2) # post,
                                   m_stack := m_stack container_two @ [Some h]\<rparr>)))
   \<and> map_sum id
        (\<lambda>c'. (m_stack c', map (\<lambda>p. (fst p, map snd (m_queue (snd p)))) (m_edges c')))
        (FindKBestHypotheses additive container_two)
       = Inr ([Some hypAX], [(1, [(0, 0)]), (2, [(0, 1), (1, 0)])])
   \<and> distinct (map fst (m_edges container_short))
   \<and> map_sum id snd (peek_edges additive (m_edges container_short) None None)
       = Inr (Some 2, Some (- 1))
   \<and> (\<exists>pre e post h x y q.
           fst (projr (peek_edges additive (m_edges container_short) None None)) = pre @ (2, e) # post
         \<and> list_all2 (\<lambda>p p'. fst p' = fst p
                \<and> (\<exists>h' xy' q'. Dequeue additive True (snd p) = Inr ((Some h', xy'), snd p')
                       \<and> m_queue (snd p') = (Some h', xy') # q')) (m_edges container_short) (fst (projr (peek_edges additive (m_edges container_short) None None)))
         \<and> m_queue e = (Some h, (x, y)) # q
         \<and> GetTotalScore h = Some (- 1)
         \<and> (\<forall>p \<in> set (fst (projr (peek_edges additive (m_edges container_short) None None))). chunk_score (hd (m_queue (snd p))) \<le> GetTotalScore h)
         \<and> Dequeue additive False e = Inr ((Some h, (x, y)), e\<lparr>m_queue := q\<rparr>)
         \<and> FindKBestHypotheses additive container_short =
             (case PushSuccessors additive x y (e\<lparr>m_queue := q\<rparr>) of
                Inl err \<Rightarrow> Inl (err, m_stack container_short @ [Some h])
              | Inr e2 \<Rightarrow>
                  Inr (container_short\<lparr>m_edges := pre @ (2, e2) # post,
                                   m_stack := m_stack container_short @ [Some h]\<rparr>)))
   \<and> FindKBestHypotheses additive container_short = Inl (OutOfBounds, [Some hypAX])"
proof -
  have d2: "distinct (map fst (m_edges container_two))"
    by code_simp
  have b2: "map_sum id snd (peek_edges additive (m_edges container_two) None None)
              = Inr (Some 2, Some (- 1))"
    by code_simp
  then have p2: "peek_edges additive (m_edges container_two) None None
                   = Inr (fst (projr (peek_edges additive (m_edges container_two) None None)), Some 2, Some (- 1))"
    by (cases "peek_edges additive (m_edges container_two) None None") auto
  have r2: "map_sum id
        (\<lambda>c'. (m_stack c', map (\<lambda>p. (fst p, map snd (m_queue (snd p)))) (m_edges c')))
        (FindKBestHypotheses additive container_two)
       = Inr ([Some hypAX], [(1, [(0, 0)]), (2, [(0, 1), (1, 0)])])"
    by code_simp
  have d3: "distinct (map fst (m_edges container_short))"
    by code_simp
  have b3: "map_sum id snd (peek_edges additive (m_edges container_short) None None)
              = Inr (Some 2, Some (- 1))"
    by code_simp
  then have p3: "peek_edges additive (m_edges container_short) None None
                   = Inr (fst (projr (peek_edges additive (m_edges container_short) None None)), Some 2, Some (- 1))"
    by (cases "peek_edges additive (m_edges container_short) None None") auto
  have r3: "FindKBestHypotheses additive container_short = Inl (OutOfBounds, [Some hypAX])"
    by code_simp
  note e2 = FindKBestHypotheses_round [OF d2 p2]
  note e3 = FindKBestHypotheses_round [OF d3 p3]
  show ?thesis
    by (intro conjI) (rule d2 b2 e2 r2 d3 b3 e3 r3)+
qed


section \<open>Ties between edges\<close>











end
